theory Spec2Isabelle
  imports Complex_Main "HOL-Library.Sublist"
begin

section \<open>Numbers\<close>

text \<open>
  The program's scores and its threshold are Go \<^verbatim>\<open>float64\<close> values. A score is the
  constant 0 or 1 or the quotient of two string lengths, and it is modelled by the exact
  rational quotient. Two quotients of integers below \<open>2^26\<close> differ by more than \<open>2^-52\<close>
  when they differ at all, so their correctly rounded \<^verbatim>\<open>float64\<close> values are equal, or
  ordered, exactly as the quotients are: the comparisons of scores in the program are those
  of the model for all strings shorter than \<open>2^26\<close> bytes. A finite threshold is modelled by
  a rational as well, which stands for the \<^verbatim>\<open>float64\<close> nearest to it; for a threshold that
  is itself such a quotient (0.6, 0.7 and 0.8 are the ones this repository uses) the
  comparison of a score with the threshold is again the one of the model. The threshold is
  supplied by the caller and may be any \<^verbatim>\<open>float64\<close>, so its special values are kept.
\<close>

datatype float64 = Finite rat | PosInf | NegInf | NaN

text \<open>The comparison \<^verbatim>\<open>a <= b\<close> of IEEE 754: false whenever an operand is NaN.\<close>

fun f64_le :: "float64 \<Rightarrow> float64 \<Rightarrow> bool" where
  "f64_le NaN _ = False"
| "f64_le _ NaN = False"
| "f64_le NegInf _ = True"
| "f64_le _ PosInf = True"
| "f64_le (Finite a) (Finite b) = (a \<le> b)"
| "f64_le PosInf _ = False"
| "f64_le _ NegInf = False"

section \<open>Configuration\<close>

record VideoSubtitleMatcher =
  videoExtensions :: "string list"
  subtitleExtensions :: "string list"
  directory :: string
  similarityThreshold :: float64
  recursive :: bool
  dryRun :: bool
  verbose :: bool
  ignoreExisting :: bool

text \<open>
  An \<^verbatim>\<open>Option\<close> is a function that updates the matcher. The matcher's fields are not
  exported, so the options a caller can build are the seven the package provides; each
  constructor below stands for the closure its Go namesake returns, and \<open>applyOption\<close> runs it.
\<close>

datatype Option =
    VideoExtensions "string list"
  | SubtitleExtensions "string list"
  | SimilarityThreshold float64
  | Recursive bool
  | DryRun bool
  | Verbose bool
  | IgnoreExisting bool

fun applyOption :: "Option \<Rightarrow> VideoSubtitleMatcher \<Rightarrow> VideoSubtitleMatcher" where
  "applyOption (VideoExtensions extensions) vsm = vsm\<lparr>videoExtensions := extensions\<rparr>"
| "applyOption (SubtitleExtensions extensions) vsm = vsm\<lparr>subtitleExtensions := extensions\<rparr>"
| "applyOption (SimilarityThreshold threshold) vsm =
     (if f64_le (Finite 0) threshold \<and> f64_le threshold (Finite 1)
      then vsm\<lparr>similarityThreshold := threshold\<rparr> else vsm)"
| "applyOption (Recursive r) vsm = vsm\<lparr>recursive := r\<rparr>"
| "applyOption (DryRun d) vsm = vsm\<lparr>dryRun := d\<rparr>"
| "applyOption (Verbose v) vsm = vsm\<lparr>verbose := v\<rparr>"
| "applyOption (IgnoreExisting ignore) vsm = vsm\<lparr>ignoreExisting := ignore\<rparr>"

definition defaults :: "string \<Rightarrow> VideoSubtitleMatcher" where
  "defaults dir =
     \<lparr>videoExtensions = [''.mkv'', ''.mp4'', ''.avi'', ''.mov'', ''.webm''],
      subtitleExtensions = [''.srt'', ''.ass'', ''.vtt''],
      directory = dir,
      similarityThreshold = Finite (6 / 10),
      recursive = True,
      dryRun = True,
      verbose = True,
      ignoreExisting = False\<rparr>"

text \<open>\<^verbatim>\<open>New\<close>: the defaults, then every option in the order given.\<close>

definition New :: "string \<Rightarrow> Option list \<Rightarrow> VideoSubtitleMatcher" where
  "New dir options = foldl (\<lambda>vsm option. applyOption option vsm) (defaults dir) options"

text \<open>The threshold is a number between 0 and 1 (so neither NaN nor an infinity).\<close>

definition validThreshold :: "float64 \<Rightarrow> bool" where
  "validThreshold t = (f64_le (Finite 0) t \<and> f64_le t (Finite 1))"

section \<open>Library functions on byte strings\<close>

text \<open>
  Go strings are byte sequences, and so are Isabelle's: a \<open>char\<close> is one byte. The functions
  of Go's \<^verbatim>\<open>strings\<close>, \<^verbatim>\<open>regexp\<close> and \<^verbatim>\<open>path/filepath\<close> packages that the
  matcher calls are modelled here on bytes, with the names of the calls they stand for.
  \<^verbatim>\<open>strings.ReplaceAll\<close> and the two regular expressions of \<open>normalizeTitle\<close> only ever
  look at ASCII bytes and copy every other byte, so their models are exact on every string.
  \<^verbatim>\<open>strings.TrimSpace\<close> and \<^verbatim>\<open>strings.ToLower\<close> are modelled on their ASCII behaviour:
  Go's versions also trim the multi-byte Unicode spaces and fold non-ASCII capital letters,
  which these models leave alone. The models agree with Go on every ASCII string.
\<close>

text \<open>
  \<open>isSpace\<close>: the ASCII white space of \<^verbatim>\<open>strings.TrimSpace\<close> (tab, line feed, vertical tab,
  form feed, carriage return, space). \<open>reSpace\<close>: the class the regular expression
  of \<open>normalizeTitle\<close> writes as backslash-s, which in Go's syntax leaves the vertical tab out.
  \<open>tagChar\<close>: the class of the bracketed tag, letters, digits, underscore and hyphen.
\<close>

definition isSpace :: "char \<Rightarrow> bool" where
  "isSpace c = (c \<in> set [CHR 0x09, CHR 0x0A, CHR 0x0B, CHR 0x0C, CHR 0x0D, CHR 0x20])"

definition reSpace :: "char \<Rightarrow> bool" where
  "reSpace c = (c \<in> set [CHR 0x09, CHR 0x0A, CHR 0x0C, CHR 0x0D, CHR 0x20])"

definition tagChar :: "char \<Rightarrow> bool" where
  "tagChar c = (let b = (of_char c :: nat) in
       (0x41 \<le> b \<and> b \<le> 0x5A) \<or> (0x61 \<le> b \<and> b \<le> 0x7A) \<or> (0x30 \<le> b \<and> b \<le> 0x39)
       \<or> c = CHR ''_'' \<or> c = CHR ''-'')"

definition strings_TrimSpace :: "string \<Rightarrow> string" where
  "strings_TrimSpace s = rev (dropWhile isSpace (rev (dropWhile isSpace s)))"

definition toLowerChar :: "char \<Rightarrow> char" where
  "toLowerChar c =
     (let b = (of_char c :: nat) in if 0x41 \<le> b \<and> b \<le> 0x5A then char_of (b + 0x20) else c)"

definition strings_ToLower :: "string \<Rightarrow> string" where
  "strings_ToLower s = map toLowerChar s"

text \<open>
  \<^verbatim>\<open>strings.ReplaceAll(s, old, new)\<close>: the non-overlapping occurrences of \<open>old\<close>, found
  from the left, are replaced. The matcher only passes non-empty literals as \<open>old\<close>; for an
  empty \<open>old\<close> Go inserts \<open>new\<close> at every character boundary, written here for bytes.
\<close>

function strings_ReplaceAll :: "string \<Rightarrow> string \<Rightarrow> string \<Rightarrow> string" where
  "strings_ReplaceAll s old new =
     (if old = [] then new @ concat (map (\<lambda>c. c # new) s)
      else if s = [] then []
      else if prefix old s then new @ strings_ReplaceAll (drop (length old) s) old new
      else hd s # strings_ReplaceAll (tl s) old new)"
  by pat_completeness auto
termination
  by (relation "measure (\<lambda>(s, old, new). length s)") auto

declare strings_ReplaceAll.simps [simp del]

text \<open>
  The first regular expression of \<open>normalizeTitle\<close> is an opening bracket, one or more
  \<open>tagChar\<close>s and a closing bracket. The closing bracket is not a \<open>tagChar\<close>, so a match that
  starts at a given opening bracket takes the whole run of \<open>tagChar\<close>s after it and exists only
  if that run is not empty and a closing bracket follows. \<open>matchTag s\<close> is the rest of \<open>s\<close>
  after a match at its start, if there is one. \<open>removeTags\<close> is
  \<^verbatim>\<open>ReplaceAllString(title, "")\<close> for this expression: matches are found from the left and
  the search goes on after each match.
\<close>

definition matchTag :: "string \<Rightarrow> string option" where
  "matchTag s =
     (case s of
        [] \<Rightarrow> None
      | c # cs \<Rightarrow>
          if c = CHR ''[''
          then (case dropWhile tagChar cs of
                  [] \<Rightarrow> None
                | d # ds \<Rightarrow> if takeWhile tagChar cs \<noteq> [] \<and> d = CHR '']'' then Some ds else None)
          else None)"

function removeTags :: "string \<Rightarrow> string" where
  "removeTags [] = []"
| "removeTags (c # cs) =
     (case matchTag (c # cs) of
        Some r \<Rightarrow> removeTags r
      | None \<Rightarrow> c # removeTags cs)"
  by pat_completeness auto
termination
proof (relation "measure length")
  fix c cs r
  assume "matchTag (c # cs) = Some r"
  then obtain d where "dropWhile tagChar cs = d # r"
    by (auto simp: matchTag_def split: list.splits if_splits)
  moreover have "length (dropWhile tagChar cs) \<le> length cs"
    by (rule length_dropWhile_le)
  ultimately show "(r, c # cs) \<in> measure length"
    by simp
qed simp_all

declare removeTags.simps [simp del]

text \<open>
  The second regular expression, one or more \<open>reSpace\<close> bytes, replaced by a single space:
  every maximal run becomes one space.
\<close>

function collapseSpaces :: "string \<Rightarrow> string" where
  "collapseSpaces [] = []"
| "collapseSpaces (c # cs) =
     (if reSpace c then CHR '' '' # collapseSpaces (dropWhile reSpace cs)
      else c # collapseSpaces cs)"
  by pat_completeness auto
termination
  by (relation "measure length") (simp_all add: le_imp_less_Suc length_dropWhile_le)

declare collapseSpaces.simps [simp del]

text \<open>The full-width question mark U+FF1F, as its three UTF-8 bytes.\<close>

definition fullwidthQuestionMark :: string where
  "fullwidthQuestionMark = [CHR 0xEF, CHR 0xBC, CHR 0x9F]"

definition normalizeTitle :: "string \<Rightarrow> string" where
  "normalizeTitle title0 =
     (let title = removeTags title0;
          title = strings_ReplaceAll title ''-_YouTube-zh-CN-dual-double'' [];
          title = strings_ReplaceAll title ''_-_YouTube'' [];
          title = strings_ReplaceAll title ''_'' '' '';
          title = strings_ReplaceAll title fullwidthQuestionMark ''?'';
          title = strings_TrimSpace title;
          title = collapseSpaces title
      in strings_ToLower title)"


section \<open>Similarity\<close>

text \<open>
  \<open>longestCommonSubsequence\<close> fills a table \<open>dp\<close> of \<open>m + 1\<close> rows and \<open>n + 1\<close> columns of
  zeros, row by row. \<open>lcsOuter\<close> is the loop over \<open>i\<close> and \<open>lcsInner\<close> the loop over \<open>j\<close>, each
  from 1 to its bound inclusive; one step of \<open>lcsInner\<close> is one assignment to \<open>dp[i][j]\<close>. The
  loops keep \<open>1 \<le> i \<le> m\<close> and \<open>1 \<le> j \<le> n\<close>, so every index the program uses is in range.
  The entries are lengths, at most the length of a string, so Go's \<^verbatim>\<open>int\<close> does not wrap and
  \<open>nat\<close> models it.
\<close>

function lcsInner :: "string \<Rightarrow> string \<Rightarrow> nat \<Rightarrow> nat \<Rightarrow> nat list list \<Rightarrow> nat list list" where
  "lcsInner s1 s2 i j dp =
     (if j \<le> length s2
      then lcsInner s1 s2 i (j + 1)
             (dp[i := (dp ! i)[j :=
                (if s1 ! (i - 1) = s2 ! (j - 1) then dp ! (i - 1) ! (j - 1) + 1
                 else if dp ! (i - 1) ! j > dp ! i ! (j - 1) then dp ! (i - 1) ! j
                 else dp ! i ! (j - 1))]])
      else dp)"
  by pat_completeness auto
termination
  by (relation "measure (\<lambda>(s1, s2, i, j, dp). length s2 + 1 - j)") auto

declare lcsInner.simps [simp del]

function lcsOuter :: "string \<Rightarrow> string \<Rightarrow> nat \<Rightarrow> nat list list \<Rightarrow> nat list list" where
  "lcsOuter s1 s2 i dp =
     (if i \<le> length s1 then lcsOuter s1 s2 (i + 1) (lcsInner s1 s2 i 1 dp) else dp)"
  by pat_completeness auto
termination
  by (relation "measure (\<lambda>(s1, s2, i, dp). length s1 + 1 - i)") auto

declare lcsOuter.simps [simp del]

definition longestCommonSubsequence :: "string \<Rightarrow> string \<Rightarrow> nat" where
  "longestCommonSubsequence s1 s2 =
     (let m = length s1; n = length s2;
          dp = replicate (m + 1) (replicate (n + 1) 0)
      in lcsOuter s1 s2 1 dp ! m ! n)"

definition calculateSimilarity :: "string \<Rightarrow> string \<Rightarrow> rat" where
  "calculateSimilarity s1 s2 =
     (if s1 = s2 then 1
      else let lcs = longestCommonSubsequence s1 s2;
               maxLen = (if length s2 > length s1 then length s2 else length s1)
           in if maxLen = 0 then 0 else of_nat lcs / of_nat maxLen)"

section \<open>Paths\<close>

text \<open>
  \<^verbatim>\<open>path/filepath\<close> on a system whose separator is the slash and which has no volume names.
  \<open>filepath_Clean\<close> follows the rules of \<^verbatim>\<open>filepath.Clean\<close> on the elements between the
  separators: empty elements and single dots are dropped; a double dot removes the element
  before it, is kept at the front of a relative path and is dropped at the root; the empty
  result is a single dot. \<open>filepath_Base\<close>, \<open>filepath_Ext\<close>, \<open>filepath_Dir\<close> and
  \<open>filepath_Join\<close> follow the library functions of the same names, and \<open>strings_TrimSuffix\<close>
  is \<^verbatim>\<open>strings.TrimSuffix\<close>.
\<close>

definition isPathSeparator :: "char \<Rightarrow> bool" where
  "isPathSeparator c = (c = CHR ''/'')"

fun splitPath :: "string \<Rightarrow> string list" where
  "splitPath [] = [[]]"
| "splitPath (c # cs) =
     (if isPathSeparator c then [] # splitPath cs
      else (case splitPath cs of e # es \<Rightarrow> (c # e) # es | [] \<Rightarrow> [[c]]))"

fun joinPath :: "string list \<Rightarrow> string" where
  "joinPath [] = []"
| "joinPath [e] = e"
| "joinPath (e # es) = e @ ''/'' @ joinPath es"

fun cleanElem :: "bool \<Rightarrow> string list \<Rightarrow> string \<Rightarrow> string list" where
  "cleanElem rooted out e =
     (if e = [] \<or> e = ''.'' then out
      else if e = ''..'' then
        (case out of
           [] \<Rightarrow> if rooted then [] else [''..'']
         | last_elem # below \<Rightarrow> if last_elem = ''..'' then ''..'' # out else below)
      else e # out)"

definition filepath_Clean :: "string \<Rightarrow> string" where
  "filepath_Clean path =
     (let rooted = (path \<noteq> [] \<and> isPathSeparator (hd path));
          out = joinPath (rev (foldl (cleanElem rooted) [] (splitPath path)));
          out = (if rooted then ''/'' @ out else out)
      in if out = [] then ''.'' else out)"

definition filepath_Base :: "string \<Rightarrow> string" where
  "filepath_Base path =
     (if path = [] then ''.''
      else let p = rev (dropWhile isPathSeparator (rev path));
               p = rev (takeWhile (\<lambda>c. \<not> isPathSeparator c) (rev p))
           in if p = [] then ''/'' else p)"

fun extFrom :: "string \<Rightarrow> string \<Rightarrow> string" where
  "extFrom [] acc = []"
| "extFrom (c # cs) acc =
     (if isPathSeparator c then []
      else if c = CHR ''.'' then c # acc
      else extFrom cs (c # acc))"

definition filepath_Ext :: "string \<Rightarrow> string" where
  "filepath_Ext path = extFrom (rev path) []"

definition filepath_Dir :: "string \<Rightarrow> string" where
  "filepath_Dir path = filepath_Clean (rev (dropWhile (\<lambda>c. \<not> isPathSeparator c) (rev path)))"

definition filepath_Join :: "string list \<Rightarrow> string" where
  "filepath_Join elem =
     (case dropWhile (\<lambda>e. e = []) elem of
        [] \<Rightarrow> []
      | e # es \<Rightarrow> filepath_Clean (joinPath (e # es)))"

definition strings_TrimSuffix :: "string \<Rightarrow> string \<Rightarrow> string" where
  "strings_TrimSuffix s suf = (if suffix suf s then take (length s - length suf) s else s)"

section \<open>Best match\<close>

text \<open>
  \<open>findBestLoop\<close> is the loop of \<open>findBestMatch\<close> over the candidate videos; its state is the
  pair of \<open>bestMatch\<close> and \<open>bestScore\<close>, which start as the empty string and 0.
\<close>

fun findBestLoop :: "string \<Rightarrow> string list \<Rightarrow> string \<times> rat \<Rightarrow> string \<times> rat" where
  "findBestLoop normalizedSubtitle [] (bestMatch, bestScore) = (bestMatch, bestScore)"
| "findBestLoop normalizedSubtitle (videoPath # rest) (bestMatch, bestScore) =
     (let videoName = strings_TrimSuffix (filepath_Base videoPath) (filepath_Ext videoPath);
          normalizedVideo = normalizeTitle videoName;
          score = calculateSimilarity normalizedSubtitle normalizedVideo
      in if score > bestScore
         then findBestLoop normalizedSubtitle rest (videoPath, score)
         else findBestLoop normalizedSubtitle rest (bestMatch, bestScore))"

definition findBestMatch :: "string \<Rightarrow> string list \<Rightarrow> string \<times> rat" where
  "findBestMatch subtitlePath videoFiles =
     (let subtitleName = strings_TrimSuffix (filepath_Base subtitlePath) (filepath_Ext subtitlePath);
          normalizedSubtitle = normalizeTitle subtitleName
      in findBestLoop normalizedSubtitle videoFiles ([], 0))"

section \<open>The matching run\<close>

text \<open>
  \<open>Match\<close> reads the directory through \<open>scanFiles\<close> and renames files through
  \<^verbatim>\<open>os.Rename\<close>. Both belong to the operating system: the outcome of the scan (an error, or
  the lists of video and subtitle paths) is an argument of the model, and the file system is
  a state of any type \<open>'w\<close> with a function \<open>rename\<close> on it that returns an optional error and
  the next state. Nothing is assumed about \<open>rename\<close>. The \<open>World\<close> also records every call
  of \<^verbatim>\<open>os.Rename\<close> that the run makes, in order. The lines the program prints when
  \<open>verbose\<close> is set are not modelled.

  \<open>matchOne\<close> is the body of the loop of \<open>Match\<close> for one subtitle: it gives the result that
  is appended, or \<open>None\<close> where the body leaves by \<^verbatim>\<open>continue\<close>. \<open>matchLoop\<close> is the loop.
\<close>

record 'e MatchResult =
  SubtitlePath :: string
  VideoPath :: string
  NewSubtitlePath :: string
  Similarity :: rat
  Renamed :: bool
  Error :: "'e option"

datatype 'e MatchError = ScanFailed 'e

record 'w World =
  files :: 'w
  renameCalls :: "(string \<times> string) list"

definition os_Rename ::
  "('w \<Rightarrow> string \<Rightarrow> string \<Rightarrow> 'e option \<times> 'w) \<Rightarrow> 'w World \<Rightarrow> string \<Rightarrow> string \<Rightarrow> 'e option \<times> 'w World" where
  "os_Rename rename w oldpath newpath =
     (let (err, fs) = rename (files w) oldpath newpath
      in (err, \<lparr>files = fs, renameCalls = renameCalls w @ [(oldpath, newpath)]\<rparr>))"

definition matchOne ::
  "('w \<Rightarrow> string \<Rightarrow> string \<Rightarrow> 'e option \<times> 'w) \<Rightarrow> VideoSubtitleMatcher \<Rightarrow> string list \<Rightarrow> string
     \<Rightarrow> 'w World \<Rightarrow> 'e MatchResult option \<times> 'w World" where
  "matchOne rename vsm videoFiles subtitlePath w =
     (let (bestMatch, score) = findBestMatch subtitlePath videoFiles;
          result = \<lparr>SubtitlePath = subtitlePath, VideoPath = bestMatch, NewSubtitlePath = [],
                    Similarity = score, Renamed = False, Error = None\<rparr>
      in if f64_le (similarityThreshold vsm) (Finite score) then
           (let videoBaseName = strings_TrimSuffix (filepath_Base bestMatch) (filepath_Ext bestMatch);
                subtitleExt = filepath_Ext subtitlePath;
                newSubtitlePath = filepath_Join [filepath_Dir subtitlePath, videoBaseName @ subtitleExt];
                result = result\<lparr>NewSubtitlePath := newSubtitlePath\<rparr>
            in if ignoreExisting vsm \<and> subtitlePath = newSubtitlePath then (None, w)
               else if \<not> dryRun vsm then
                 (if subtitlePath \<noteq> newSubtitlePath then
                    (case os_Rename rename w subtitlePath newSubtitlePath of
                       (Some err, w') \<Rightarrow> (Some (result\<lparr>Error := Some err\<rparr>), w')
                     | (None, w') \<Rightarrow> (Some (result\<lparr>Renamed := True\<rparr>), w'))
                  else (Some (result\<lparr>Renamed := True\<rparr>), w))
               else (Some result, w))
         else (Some result, w))"

fun matchLoop ::
  "('w \<Rightarrow> string \<Rightarrow> string \<Rightarrow> 'e option \<times> 'w) \<Rightarrow> VideoSubtitleMatcher \<Rightarrow> string list \<Rightarrow> string list
     \<Rightarrow> 'e MatchResult list \<times> 'w World \<Rightarrow> 'e MatchResult list \<times> 'w World" where
  "matchLoop rename vsm videoFiles [] (results, w) = (results, w)"
| "matchLoop rename vsm videoFiles (subtitlePath # rest) (results, w) =
     (case matchOne rename vsm videoFiles subtitlePath w of
        (None, w') \<Rightarrow> matchLoop rename vsm videoFiles rest (results, w')
      | (Some result, w') \<Rightarrow> matchLoop rename vsm videoFiles rest (results @ [result], w'))"

definition Match ::
  "('w \<Rightarrow> string \<Rightarrow> string \<Rightarrow> 'e option \<times> 'w) \<Rightarrow> VideoSubtitleMatcher
     \<Rightarrow> 'e + string list \<times> string list \<Rightarrow> 'w World
     \<Rightarrow> ('e MatchError + 'e MatchResult list) \<times> 'w World" where
  "Match rename vsm scanFiles w =
     (case scanFiles of
        Inl err \<Rightarrow> (Inl (ScanFailed err), w)
      | Inr (videoFiles, subtitleFiles) \<Rightarrow>
          (let (results, w') = matchLoop rename vsm videoFiles subtitleFiles ([], w)
           in (Inr results, w')))"


section \<open>Notions used in the statements and proofs\<close>

text \<open>
  The expressions of the program that the theorems speak about, each under a name: the
  stem \<open>findBestMatch\<close> normalizes, the score of one candidate, whether the best score
  passes the threshold of \<open>Match\<close>, the new path \<open>Match\<close> computes, and the condition of
  its \<^verbatim>\<open>continue\<close>.
\<close>

definition stem :: "string \<Rightarrow> string" where
  "stem path = strings_TrimSuffix (filepath_Base path) (filepath_Ext path)"

definition candidateScore :: "string \<Rightarrow> string \<Rightarrow> rat" where
  "candidateScore subtitlePath videoPath =
     calculateSimilarity (normalizeTitle (stem subtitlePath)) (normalizeTitle (stem videoPath))"

definition accepted :: "VideoSubtitleMatcher \<Rightarrow> string list \<Rightarrow> string \<Rightarrow> bool" where
  "accepted vsm videoFiles subtitlePath =
     f64_le (similarityThreshold vsm) (Finite (snd (findBestMatch subtitlePath videoFiles)))"

definition newPathFor :: "string list \<Rightarrow> string \<Rightarrow> string" where
  "newPathFor videoFiles subtitlePath =
     filepath_Join [filepath_Dir subtitlePath,
                    stem (fst (findBestMatch subtitlePath videoFiles)) @ filepath_Ext subtitlePath]"

definition skipped :: "VideoSubtitleMatcher \<Rightarrow> string list \<Rightarrow> string \<Rightarrow> bool" where
  "skipped vsm videoFiles subtitlePath =
     (ignoreExisting vsm \<and> accepted vsm videoFiles subtitlePath
      \<and> subtitlePath = newPathFor videoFiles subtitlePath)"


text \<open>
  What every result of \<open>Match\<close> looks like, whatever the file system does: the video and
  the score are those of \<open>findBestMatch\<close>; the new path is the computed one if the score
  passes the threshold and empty otherwise; a result below the threshold, and every result
  of a dry run, is neither renamed nor in error; no result is both renamed and in error.
\<close>

definition resultShape :: "VideoSubtitleMatcher \<Rightarrow> string list \<Rightarrow> 'e MatchResult \<Rightarrow> bool" where
  "resultShape vsm videoFiles r =
     (VideoPath r = fst (findBestMatch (SubtitlePath r) videoFiles)
      \<and> Similarity r = snd (findBestMatch (SubtitlePath r) videoFiles)
      \<and> NewSubtitlePath r =
          (if accepted vsm videoFiles (SubtitlePath r) then newPathFor videoFiles (SubtitlePath r) else [])
      \<and> (\<not> accepted vsm videoFiles (SubtitlePath r) \<or> dryRun vsm \<longrightarrow> \<not> Renamed r \<and> Error r = None)
      \<and> (Renamed r \<longrightarrow> Error r = None))"

text \<open>
  The length of the longest common subsequence of two lists, as the specification means it: the
  greatest length of a list that is a subsequence of both (\<open>subseq\<close>: the list is obtained
  by deleting elements). \<open>lcsRec\<close> is the classic recurrence, read from the front of the
  lists. \<open>lcsCell s1 s2 r c\<close> is the value the recurrence gives for the first \<open>r\<close> bytes of
  \<open>s1\<close> and the first \<open>c\<close> bytes of \<open>s2\<close>; the table of the program compares the last bytes
  of these prefixes, hence the reversal. \<open>lcsInv\<close> is the invariant of the two loops: the
  table has its dimensions, the cells before position \<open>(i, j)\<close> in row order hold \<open>lcsCell\<close>
  and the others still hold 0.
\<close>

fun lcsRec :: "'a list \<Rightarrow> 'a list \<Rightarrow> nat" where
  "lcsRec [] ys = 0"
| "lcsRec (x # xs) [] = 0"
| "lcsRec (x # xs) (y # ys) =
     (if x = y then lcsRec xs ys + 1 else max (lcsRec xs (y # ys)) (lcsRec (x # xs) ys))"

definition lcsLength :: "'a list \<Rightarrow> 'a list \<Rightarrow> nat" where
  "lcsLength a b = Max (length ` {w. subseq w a \<and> subseq w b})"

definition lcsCell :: "string \<Rightarrow> string \<Rightarrow> nat \<Rightarrow> nat \<Rightarrow> nat" where
  "lcsCell s1 s2 r c = lcsRec (rev (take r s1)) (rev (take c s2))"

definition lcsInv :: "string \<Rightarrow> string \<Rightarrow> nat \<Rightarrow> nat \<Rightarrow> nat list list \<Rightarrow> bool" where
  "lcsInv s1 s2 i j dp =
     (length dp = length s1 + 1
      \<and> (\<forall>r\<le>length s1. length (dp ! r) = length s2 + 1)
      \<and> (\<forall>r\<le>length s1. \<forall>c\<le>length s2.
            dp ! r ! c = (if r < i \<or> (r = i \<and> c < j) then lcsCell s1 s2 r c else 0)))"

section \<open>Configuration: theorems\<close>

lemma validThreshold_Finite: "validThreshold t \<longleftrightarrow> (\<exists>r. t = Finite r \<and> 0 \<le> r \<and> r \<le> 1)"
  by (cases t) (simp_all add: validThreshold_def)

lemma applyOption_valid:
  "validThreshold (similarityThreshold vsm) \<Longrightarrow>
   validThreshold (similarityThreshold (applyOption option vsm))"
  by (cases option) (simp_all add: validThreshold_def)

lemma foldl_applyOption_valid:
  "validThreshold (similarityThreshold vsm) \<Longrightarrow>
   validThreshold (similarityThreshold (foldl (\<lambda>vsm option. applyOption option vsm) vsm options))"
  by (induction options arbitrary: vsm) (simp_all add: applyOption_valid)

lemma defaults_valid: "validThreshold (similarityThreshold (defaults dir))"
  by (simp add: defaults_def validThreshold_def)

text \<open>
  C8. For every directory and every sequence of options, the matcher built by \<open>New\<close> has a
  threshold in [0,1]; without options it is the default 0.6; and a \<open>SimilarityThreshold t\<close>
  with \<open>t\<close> outside [0,1] (NaN and the infinities included) changes nothing, wherever it
  stands in the sequence: the matcher is the one built from the options before it, and the
  later options apply as if it were absent. \<open>New\<close> is a total function that returns a
  matcher: there is no error result.
\<close>

theorem New_threshold_in_range:
  "(\<exists>r. similarityThreshold (New dir options) = Finite r \<and> 0 \<le> r \<and> r \<le> 1)
   \<and> similarityThreshold (New dir []) = Finite (6 / 10)
   \<and> (\<not> validThreshold t \<longrightarrow>
        applyOption (SimilarityThreshold t) vsm = vsm
        \<and> New dir (before @ [SimilarityThreshold t]) = New dir before
        \<and> New dir (before @ SimilarityThreshold t # after) = New dir (before @ after))"
proof -
  have "validThreshold (similarityThreshold (New dir options))"
    unfolding New_def by (rule foldl_applyOption_valid [OF defaults_valid])
  then have range: "\<exists>r. similarityThreshold (New dir options) = Finite r \<and> 0 \<le> r \<and> r \<le> 1"
    by (simp add: validThreshold_Finite)
  have dflt: "similarityThreshold (New dir []) = Finite (6 / 10)"
    by (simp add: New_def defaults_def)
  have ign: "applyOption (SimilarityThreshold t) v = v" if "\<not> validThreshold t" for v
    using that by (auto simp: validThreshold_def)
  from range dflt ign show ?thesis
    by (simp add: New_def)
qed

theorem New_threshold_in_range_witness:
  "\<not> validThreshold (Finite (3 / 2))
   \<and> \<not> validThreshold NaN
   \<and> similarityThreshold (New ''d'' [SimilarityThreshold (Finite (8 / 10)), SimilarityThreshold (Finite (3 / 2))])
       = Finite (8 / 10)
   \<and> New ''d'' [SimilarityThreshold (Finite (8 / 10)), SimilarityThreshold (Finite (3 / 2)), DryRun False]
       = New ''d'' [SimilarityThreshold (Finite (8 / 10)), DryRun False]
   \<and> New ''d'' [SimilarityThreshold NaN] = New ''d'' []"
proof -
  have h: "\<not> validThreshold (Finite (3 / 2))" "\<not> validThreshold NaN"
    by (simp_all add: validThreshold_def)
  have a: "New ''d'' ([SimilarityThreshold (Finite (8 / 10))] @ [SimilarityThreshold (Finite (3 / 2))])
           = New ''d'' [SimilarityThreshold (Finite (8 / 10))]"
    and b: "New ''d'' ([SimilarityThreshold (Finite (8 / 10))] @ SimilarityThreshold (Finite (3 / 2)) # [DryRun False])
           = New ''d'' ([SimilarityThreshold (Finite (8 / 10))] @ [DryRun False])"
    using New_threshold_in_range [of "''d''" "[]" "Finite (3 / 2)" _ "[SimilarityThreshold (Finite (8 / 10))]" "[DryRun False]"] h
    by blast+
  have c: "New ''d'' ([] @ [SimilarityThreshold NaN]) = New ''d'' []"
    using New_threshold_in_range [of "''d''" "[]" NaN _ "[]" "[]"] h by blast
  have d: "similarityThreshold (New ''d'' [SimilarityThreshold (Finite (8 / 10))]) = Finite (8 / 10)"
    by (simp add: New_def defaults_def)
  from h a b c d show ?thesis by simp
qed

section \<open>Normalization: theorems\<close>

subsection \<open>Bytes\<close>












subsection \<open>ReplaceAll\<close>









subsection \<open>TrimSpace\<close>




subsection \<open>The collapse of white space\<close>










subsection \<open>ToLower\<close>



subsection \<open>The normalized title\<close>























section \<open>Similarity: theorems\<close>

lemma lcsRec_Nil2 [simp]: "lcsRec xs [] = 0"
  by (cases xs) simp_all

lemma lcsCell_0 [simp]: "lcsCell s1 s2 0 c = 0" "lcsCell s1 s2 r 0 = 0"
  by (simp_all add: lcsCell_def)

lemma lcsCell_step:
  assumes "0 < r" "r \<le> length s1" "0 < c" "c \<le> length s2"
  shows "lcsCell s1 s2 r c =
     (if s1 ! (r - 1) = s2 ! (c - 1) then lcsCell s1 s2 (r - 1) (c - 1) + 1
      else max (lcsCell s1 s2 (r - 1) c) (lcsCell s1 s2 r (c - 1)))"
proof -
  obtain r' c' where rc: "r = Suc r'" "c = Suc c'"
    using assms(1,3) by (metis Suc_pred)
  have r': "r' < length s1" and c': "c' < length s2"
    using assms rc by simp_all
  have t1: "rev (take (Suc r') s1) = s1 ! r' # rev (take r' s1)"
    using r' by (simp add: take_Suc_conv_app_nth)
  have t2: "rev (take (Suc c') s2) = s2 ! c' # rev (take c' s2)"
    using c' by (simp add: take_Suc_conv_app_nth)
  show ?thesis
    unfolding rc lcsCell_def t1 t2 by simp
qed

lemma lcsInner_inv:
  "1 \<le> i \<Longrightarrow> i \<le> length s1 \<Longrightarrow> 1 \<le> j \<Longrightarrow> j \<le> length s2 + 1 \<Longrightarrow> lcsInv s1 s2 i j dp \<Longrightarrow>
   lcsInv s1 s2 i (length s2 + 1) (lcsInner s1 s2 i j dp)"
proof (induction s1 s2 i j dp rule: lcsInner.induct)
  case (1 s1 s2 i j dp)
  show ?case
  proof (cases "j \<le> length s2")
    case False
    with "1.prems" have "j = length s2 + 1" by simp
    moreover have "lcsInner s1 s2 i j dp = dp"
      using False by (subst lcsInner.simps) simp
    ultimately show ?thesis using "1.prems"(5) by simp
  next
    case True
    let ?v = "if s1 ! (i - 1) = s2 ! (j - 1) then dp ! (i - 1) ! (j - 1) + 1
              else if dp ! (i - 1) ! j > dp ! i ! (j - 1) then dp ! (i - 1) ! j
              else dp ! i ! (j - 1)"
    let ?dp = "dp[i := (dp ! i)[j := ?v]]"
    from "1.prems"(5) have len: "length dp = length s1 + 1"
      and rows: "\<forall>r\<le>length s1. length (dp ! r) = length s2 + 1"
      and cells: "\<forall>r\<le>length s1. \<forall>c\<le>length s2.
            dp ! r ! c = (if r < i \<or> (r = i \<and> c < j) then lcsCell s1 s2 r c else 0)"
      by (simp_all add: lcsInv_def)
    have a: "dp ! (i - 1) ! (j - 1) = lcsCell s1 s2 (i - 1) (j - 1)"
      using cells "1.prems"(1,2,3) True by simp
    have b: "dp ! (i - 1) ! j = lcsCell s1 s2 (i - 1) j"
      using cells "1.prems"(1,2,3) True by simp
    have c: "dp ! i ! (j - 1) = lcsCell s1 s2 i (j - 1)"
      using cells "1.prems"(1,2,3) True by simp
    have v: "?v = lcsCell s1 s2 i j"
      unfolding a b c using lcsCell_step [of i s1 j s2] "1.prems"(1,2,3) True
      by (simp add: max_def)
    have inv: "lcsInv s1 s2 i (j + 1) ?dp"
      unfolding lcsInv_def
    proof (intro conjI allI impI)
      show "length ?dp = length s1 + 1" using len by simp
    next
      fix r assume "r \<le> length s1"
      then show "length (?dp ! r) = length s2 + 1"
        using rows len by (cases "r = i") simp_all
    next
      fix r c assume r: "r \<le> length s1" and c: "c \<le> length s2"
      show "?dp ! r ! c = (if r < i \<or> (r = i \<and> c < j + 1) then lcsCell s1 s2 r c else 0)"
      proof (cases "r = i")
        case False
        then have "?dp ! r ! c = dp ! r ! c" by simp
        with cells r c False show ?thesis by simp
      next
        case ri: True
        have il: "i < length dp" using len "1.prems"(2) by simp
        have jl: "j < length (dp ! i)" using rows "1.prems"(2) True by simp
        show ?thesis
        proof (cases "c = j")
          case True
          with ri il jl v show ?thesis by simp
        next
          case False
          with ri il have "?dp ! r ! c = dp ! r ! c" by simp
          with cells r c ri False show ?thesis by auto
        qed
      qed
    qed
    have "lcsInner s1 s2 i j dp = lcsInner s1 s2 i (j + 1) ?dp"
      using True by (subst lcsInner.simps) simp
    moreover have "lcsInv s1 s2 i (length s2 + 1) (lcsInner s1 s2 i (j + 1) ?dp)"
      using "1.IH" [OF True "1.prems"(1,2) _ _ inv] True by simp
    ultimately show ?thesis by simp
  qed
qed

lemma lcsInv_next_row:
  "lcsInv s1 s2 i (length s2 + 1) dp \<Longrightarrow> lcsInv s1 s2 (i + 1) 1 dp"
  unfolding lcsInv_def
  by (intro conjI allI impI) (auto simp: less_Suc_eq)

lemma lcsOuter_inv:
  "1 \<le> i \<Longrightarrow> i \<le> length s1 + 1 \<Longrightarrow> lcsInv s1 s2 i 1 dp \<Longrightarrow>
   lcsInv s1 s2 (length s1 + 1) 1 (lcsOuter s1 s2 i dp)"
proof (induction s1 s2 i dp rule: lcsOuter.induct)
  case (1 s1 s2 i dp)
  show ?case
  proof (cases "i \<le> length s1")
    case False
    with "1.prems" have "i = length s1 + 1" by simp
    moreover have "lcsOuter s1 s2 i dp = dp"
      using False by (subst lcsOuter.simps) simp
    ultimately show ?thesis using "1.prems"(3) by simp
  next
    case True
    have "lcsInv s1 s2 i (length s2 + 1) (lcsInner s1 s2 i 1 dp)"
      using lcsInner_inv [of i s1 1 s2 dp] "1.prems" True by simp
    then have "lcsInv s1 s2 (i + 1) 1 (lcsInner s1 s2 i 1 dp)"
      by (rule lcsInv_next_row)
    from "1.IH" [OF True _ _ this] True
    have "lcsInv s1 s2 (length s1 + 1) 1 (lcsOuter s1 s2 (i + 1) (lcsInner s1 s2 i 1 dp))"
      by simp
    moreover have "lcsOuter s1 s2 i dp = lcsOuter s1 s2 (i + 1) (lcsInner s1 s2 i 1 dp)"
      using True by (subst lcsOuter.simps) simp
    ultimately show ?thesis by simp
  qed
qed

lemma lcsInv_init:
  "lcsInv s1 s2 1 1 (replicate (length s1 + 1) (replicate (length s2 + 1) 0))"
  unfolding lcsInv_def
proof (intro conjI allI impI)
  fix r c assume "r \<le> length s1" "c \<le> length s2"
  then have "replicate (length s1 + 1) (replicate (length s2 + 1) (0::nat)) ! r ! c = 0"
    by (simp del: replicate.simps)
  moreover have "lcsCell s1 s2 r c = 0" if "r < 1 \<or> (r = 1 \<and> c < 1)"
    using that by auto
  ultimately show "replicate (length s1 + 1) (replicate (length s2 + 1) 0) ! r ! c
      = (if r < 1 \<or> (r = 1 \<and> c < 1) then lcsCell s1 s2 r c else 0)"
    by simp
qed (simp_all del: replicate.simps)

lemma longestCommonSubsequence_lcsRec:
  "longestCommonSubsequence s1 s2 = lcsRec (rev s1) (rev s2)"
proof -
  let ?dp = "lcsOuter s1 s2 1 (replicate (length s1 + 1) (replicate (length s2 + 1) 0))"
  have "lcsInv s1 s2 (length s1 + 1) 1 ?dp"
    using lcsOuter_inv [OF _ _ lcsInv_init, of s1 s2] by simp
  then have "?dp ! length s1 ! length s2 = lcsCell s1 s2 (length s1) (length s2)"
    by (simp add: lcsInv_def)
  then show ?thesis
    by (simp add: longestCommonSubsequence_def lcsCell_def Let_def)
qed

lemma lcsRec_attained: "\<exists>w. subseq w xs \<and> subseq w ys \<and> length w = lcsRec xs ys"
proof (induction xs ys rule: lcsRec.induct)
  case (1 ys)
  show ?case by (intro exI [of _ "[]"]) simp
next
  case (2 x xs)
  show ?case by (intro exI [of _ "[]"]) simp
next
  case (3 x xs y ys)
  show ?case
  proof (cases "x = y")
    case True
    with 3 obtain w where "subseq w xs" "subseq w ys" "length w = lcsRec xs ys" by blast
    with True show ?thesis by (intro exI [of _ "x # w"]) simp
  next
    case False
    show ?thesis
    proof (cases "lcsRec xs (y # ys) \<le> lcsRec (x # xs) ys")
      case True
      from 3(3) [OF False] obtain w where
        "subseq w (x # xs)" "subseq w ys" "length w = lcsRec (x # xs) ys" by blast
      with False True show ?thesis
        by (intro exI [of _ w]) (simp add: max_def list_emb_Cons)
    next
      case le: False
      from 3(2) [OF False] obtain w where
        "subseq w xs" "subseq w (y # ys)" "length w = lcsRec xs (y # ys)" by blast
      with False le show ?thesis
        by (intro exI [of _ w]) (simp add: max_def list_emb_Cons)
    qed
  qed
qed

lemma lcsRec_upper: "subseq w xs \<Longrightarrow> subseq w ys \<Longrightarrow> length w \<le> lcsRec xs ys"
proof (induction xs ys arbitrary: w rule: lcsRec.induct)
  case (1 ys)
  then show ?case by simp
next
  case (2 x xs)
  then show ?case by simp
next
  case (3 x xs y ys)
  show ?case
  proof (cases w)
    case Nil
    then show ?thesis by simp
  next
    case (Cons a w')
    show ?thesis
    proof (cases "x = y")
      case True
      have "subseq w' xs"
        using "3.prems"(1) Cons by (metis subseq_Cons' subseq_Cons2_iff)
      moreover have "subseq w' ys"
        using "3.prems"(2) Cons by (metis subseq_Cons' subseq_Cons2_iff)
      ultimately have "length w' \<le> lcsRec xs ys"
        using "3.IH"(1) [OF True] by blast
      with True Cons show ?thesis by simp
    next
      case False
      show ?thesis
      proof (cases "a = x")
        case True
        with False have "a \<noteq> y" by simp
        with "3.prems"(2) Cons have "subseq w ys" by simp
        from "3.IH"(3) [OF False "3.prems"(1) this] False show ?thesis by simp
      next
        case ax: False
        with "3.prems"(1) Cons have "subseq w xs" by simp
        from "3.IH"(2) [OF False this "3.prems"(2)] False show ?thesis by simp
      qed
    qed
  qed
qed

lemma finite_common: "finite {w. subseq w a \<and> subseq w b}"
proof -
  have "{w. subseq w a \<and> subseq w b} \<subseteq> set (subseqs a)" by auto
  then show ?thesis by (rule finite_subset) simp
qed

lemma lcsLength_lcsRec: "lcsLength a b = lcsRec a b"
proof -
  let ?S = "length ` {w. subseq w a \<and> subseq w b}"
  have fin: "finite ?S" using finite_common by (rule finite_imageI)
  from lcsRec_attained [of a b] have mem: "lcsRec a b \<in> ?S" by force
  have "n \<le> lcsRec a b" if "n \<in> ?S" for n
    using that lcsRec_upper by auto
  with fin mem show ?thesis
    unfolding lcsLength_def by (intro Max_eqI) auto
qed

lemma subseq_rev: "subseq xs ys \<Longrightarrow> subseq (rev xs) (rev ys)"
proof (induction rule: list_emb.induct)
  case (list_emb_Nil ys)
  show ?case by simp
next
  case (list_emb_Cons xs ys y)
  then show ?case by (simp add: subseq_rev_drop_many)
next
  case (list_emb_Cons2 x y xs ys)
  then have "subseq (rev xs @ [x]) (rev ys @ [x])"
    by (intro list_emb_append_mono) simp_all
  with list_emb_Cons2 show ?case by simp
qed

lemma subseq_rev_iff: "subseq (rev xs) (rev ys) \<longleftrightarrow> subseq xs ys"
  using subseq_rev [of xs ys] subseq_rev [of "rev xs" "rev ys"] by auto

lemma lcsLength_rev: "lcsLength (rev a) (rev b) = lcsLength a b"
proof -
  have "{w. subseq w (rev a) \<and> subseq w (rev b)} = rev ` {w. subseq w a \<and> subseq w b}"
  proof (intro set_eqI iffI)
    fix w assume "w \<in> {w. subseq w (rev a) \<and> subseq w (rev b)}"
    then have "subseq (rev w) a \<and> subseq (rev w) b"
      by (metis mem_Collect_eq rev_rev_ident subseq_rev_iff)
    then have "rev w \<in> {w. subseq w a \<and> subseq w b}" by simp
    then show "w \<in> rev ` {w. subseq w a \<and> subseq w b}"
      by (metis image_eqI rev_rev_ident)
  next
    fix w assume "w \<in> rev ` {w. subseq w a \<and> subseq w b}"
    then show "w \<in> {w. subseq w (rev a) \<and> subseq w (rev b)}"
      by (auto simp: subseq_rev_iff)
  qed
  then have "length ` {w. subseq w (rev a) \<and> subseq w (rev b)}
      = length ` {w. subseq w a \<and> subseq w b}"
    by (simp add: image_image)
  then show ?thesis by (simp add: lcsLength_def)
qed

lemma longestCommonSubsequence_lcsLength:
  "longestCommonSubsequence s1 s2 = lcsLength s1 s2"
  by (simp add: longestCommonSubsequence_lcsRec lcsLength_lcsRec [symmetric] lcsLength_rev)

lemma lcsLength_le: "lcsLength a b \<le> length a" "lcsLength a b \<le> length b"
proof -
  obtain w where w: "subseq w a" "subseq w b" "length w = lcsRec a b"
    using lcsRec_attained by blast
  from w(1) have "length w \<le> length a" by (rule list_emb_length)
  moreover from w(2) have "length w \<le> length b" by (rule list_emb_length)
  ultimately show "lcsLength a b \<le> length a" "lcsLength a b \<le> length b"
    using w(3) by (simp_all add: lcsLength_lcsRec)
qed

text \<open>
  C1. \<open>calculateSimilarity\<close> returns 1 on equal strings (the empty ones included); on
  different strings it returns \<open>L / max (length a) (length b)\<close>, where \<open>L\<close> is the length of
  the longest common subsequence of the two byte sequences, which is what the table of
  \<open>longestCommonSubsequence\<close> computes; and the value always lies in [0,1].
\<close>

theorem calculateSimilarity_lcs:
  "calculateSimilarity a a = 1
   \<and> (a \<noteq> b \<longrightarrow>
        calculateSimilarity a b = of_nat (lcsLength a b) / of_nat (max (length a) (length b)))
   \<and> longestCommonSubsequence a b = lcsLength a b
   \<and> 0 \<le> calculateSimilarity a b \<and> calculateSimilarity a b \<le> 1"
proof -
  have same: "calculateSimilarity a a = 1"
    by (simp add: calculateSimilarity_def)
  have mx: "(if length a < length b then length b else length a) = max (length a) (length b)"
    by (simp add: max_def)
  have ne: "calculateSimilarity a b = of_nat (lcsLength a b) / of_nat (max (length a) (length b))"
    if "a \<noteq> b"
    using that
    by (simp add: calculateSimilarity_def Let_def longestCommonSubsequence_lcsLength mx)
  have le: "lcsLength a b \<le> max (length a) (length b)"
    using lcsLength_le(1) [of a b] by simp
  have range: "0 \<le> calculateSimilarity a b \<and> calculateSimilarity a b \<le> 1"
  proof (cases "a = b")
    case True
    with same show ?thesis by simp
  next
    case False
    have "(of_nat (lcsLength a b) :: rat) \<le> of_nat (max (length a) (length b))"
      using le by (simp only: of_nat_le_iff)
    moreover have "0 < max (length a) (length b)"
      using False by (cases a; cases b) simp_all
    ultimately have "(of_nat (lcsLength a b) :: rat) / of_nat (max (length a) (length b)) \<le> 1"
      by (simp add: divide_le_eq_1)
    moreover have "(0::rat) \<le> of_nat (lcsLength a b) / of_nat (max (length a) (length b))"
      by simp
    ultimately show ?thesis using ne [OF False] by simp
  qed
  from same ne range show ?thesis
    by (simp add: longestCommonSubsequence_lcsLength)
qed

theorem calculateSimilarity_lcs_witness:
  "''abcde'' \<noteq> ''xbdye''
   \<and> calculateSimilarity ''abcde'' ''xbdye'' = 3 / 5
   \<and> longestCommonSubsequence ''abcde'' ''xbdye'' = 3
   \<and> lcsLength ''abcde'' ''xbdye'' = 3
   \<and> max (length ''abcde'') (length ''xbdye'') = 5
   \<and> calculateSimilarity [] [] = 1"
proof -
  have ne: "''abcde'' \<noteq> ''xbdye''" by simp
  have l: "longestCommonSubsequence ''abcde'' ''xbdye'' = 3" by code_simp
  have c: "calculateSimilarity ''abcde'' ''xbdye'' = 3 / 5" by code_simp
  have e: "calculateSimilarity [] [] = 1" by code_simp
  from calculateSimilarity_lcs [of "''abcde''" "''xbdye''"] l
  have "lcsLength ''abcde'' ''xbdye'' = 3" by simp
  with ne l c e show ?thesis by simp
qed

section \<open>The matching run: theorems\<close>

lemma filepath_Clean_nonempty: "filepath_Clean p \<noteq> []"
  by (simp add: filepath_Clean_def Let_def)

lemma filepath_Dir_nonempty: "filepath_Dir p \<noteq> []"
  by (simp add: filepath_Dir_def filepath_Clean_nonempty)

lemma newPathFor_nonempty: "newPathFor videoFiles sp \<noteq> []"
  by (simp add: newPathFor_def filepath_Join_def filepath_Dir_nonempty filepath_Clean_nonempty)

lemma matchOne_unfold:
  "matchOne rename vsm videoFiles sp w =
     (let r = \<lparr>SubtitlePath = sp, VideoPath = fst (findBestMatch sp videoFiles), NewSubtitlePath = [],
               Similarity = snd (findBestMatch sp videoFiles), Renamed = False, Error = None\<rparr>;
          np = newPathFor videoFiles sp
      in if \<not> accepted vsm videoFiles sp then (Some r, w)
         else if skipped vsm videoFiles sp then (None, w)
         else if dryRun vsm then (Some (r\<lparr>NewSubtitlePath := np\<rparr>), w)
         else if sp = np then (Some (r\<lparr>NewSubtitlePath := np, Renamed := True\<rparr>), w)
         else (case os_Rename rename w sp np of
                 (Some err, w') \<Rightarrow> (Some (r\<lparr>NewSubtitlePath := np, Error := Some err\<rparr>), w')
               | (None, w') \<Rightarrow> (Some (r\<lparr>NewSubtitlePath := np, Renamed := True\<rparr>), w')))"
  by (simp add: matchOne_def accepted_def skipped_def newPathFor_def stem_def Let_def
      split: prod.splits option.splits)

lemma matchOne_result:
  fixes rename :: "'w \<Rightarrow> string \<Rightarrow> string \<Rightarrow> 'e option \<times> 'w"
  assumes "matchOne rename vsm videoFiles sp w = (res, w')"
  shows "(skipped vsm videoFiles sp \<longrightarrow> res = None)
     \<and> (\<not> skipped vsm videoFiles sp \<longrightarrow> (\<exists>r. res = Some r \<and> SubtitlePath r = sp \<and> resultShape vsm videoFiles r))"
proof -
  define r0 :: "'e MatchResult" where "r0 =
     \<lparr>SubtitlePath = sp, VideoPath = fst (findBestMatch sp videoFiles), NewSubtitlePath = [],
      Similarity = snd (findBestMatch sp videoFiles), Renamed = False, Error = None\<rparr>"
  define np where "np = newPathFor videoFiles sp"
  have res: "res = fst (matchOne rename vsm videoFiles sp w)"
    using assms by simp
  show ?thesis
  proof (cases "accepted vsm videoFiles sp")
    case False
    then have ns: "\<not> skipped vsm videoFiles sp" by (simp add: skipped_def)
    have "res = Some r0"
      unfolding res using False by (simp add: matchOne_unfold Let_def r0_def)
    moreover have "SubtitlePath r0 = sp \<and> resultShape vsm videoFiles r0"
      using False by (simp add: resultShape_def r0_def)
    ultimately show ?thesis using ns by blast
  next
    case acc: True
    show ?thesis
    proof (cases "skipped vsm videoFiles sp")
      case True
      then have "res = None"
        unfolding res using acc by (simp add: matchOne_unfold Let_def)
      with True show ?thesis by simp
    next
      case ns: False
      show ?thesis
      proof (cases "dryRun vsm")
        case True
        have "res = Some (r0\<lparr>NewSubtitlePath := np\<rparr>)"
          unfolding res using acc ns True by (simp add: matchOne_unfold Let_def r0_def np_def)
        moreover have "SubtitlePath (r0\<lparr>NewSubtitlePath := np\<rparr>) = sp
            \<and> resultShape vsm videoFiles (r0\<lparr>NewSubtitlePath := np\<rparr>)"
          using acc by (simp add: resultShape_def r0_def np_def)
        ultimately show ?thesis using ns by blast
      next
        case nd: False
        show ?thesis
        proof (cases "np = sp")
          case True
          have "res = Some (r0\<lparr>NewSubtitlePath := np, Renamed := True\<rparr>)"
            unfolding res using acc ns nd True
            by (simp add: matchOne_unfold Let_def r0_def np_def)
          moreover have "SubtitlePath (r0\<lparr>NewSubtitlePath := np, Renamed := True\<rparr>) = sp
              \<and> resultShape vsm videoFiles (r0\<lparr>NewSubtitlePath := np, Renamed := True\<rparr>)"
            using acc nd by (simp add: resultShape_def r0_def np_def)
          ultimately show ?thesis using ns by blast
        next
          case False
          obtain e w1 where r: "os_Rename rename w sp np = (e, w1)"
            by (cases "os_Rename rename w sp np")
          show ?thesis
          proof (cases e)
            case None
            have "res = Some (r0\<lparr>NewSubtitlePath := np, Renamed := True\<rparr>)"
              unfolding res using acc ns nd False r None
              by (simp add: matchOne_unfold Let_def r0_def np_def)
            moreover have "SubtitlePath (r0\<lparr>NewSubtitlePath := np, Renamed := True\<rparr>) = sp
                \<and> resultShape vsm videoFiles (r0\<lparr>NewSubtitlePath := np, Renamed := True\<rparr>)"
              using acc nd by (simp add: resultShape_def r0_def np_def)
            ultimately show ?thesis using ns by blast
          next
            case (Some err)
            have "res = Some (r0\<lparr>NewSubtitlePath := np, Error := Some err\<rparr>)"
              unfolding res using acc ns nd False r Some
              by (simp add: matchOne_unfold Let_def r0_def np_def)
            moreover have "SubtitlePath (r0\<lparr>NewSubtitlePath := np, Error := Some err\<rparr>) = sp
                \<and> resultShape vsm videoFiles (r0\<lparr>NewSubtitlePath := np, Error := Some err\<rparr>)"
              using acc nd by (simp add: resultShape_def r0_def np_def)
            ultimately show ?thesis using ns by blast
          qed
        qed
      qed
    qed
  qed
qed

lemma matchLoop_results:
  "matchLoop rename vsm videoFiles sps (acc, w) = (res, w') \<Longrightarrow>
     \<exists>new. res = acc @ new
       \<and> map SubtitlePath new = filter (\<lambda>sp. \<not> skipped vsm videoFiles sp) sps
       \<and> (\<forall>r\<in>set new. resultShape vsm videoFiles r)"
proof (induction sps arbitrary: acc w)
  case Nil
  then show ?case by simp
next
  case (Cons sp sps)
  obtain r1 w1 where m: "matchOne rename vsm videoFiles sp w = (r1, w1)"
    by (cases "matchOne rename vsm videoFiles sp w")
  note one = matchOne_result [OF m]
  show ?case
  proof (cases "skipped vsm videoFiles sp")
    case True
    with one have "r1 = None" by simp
    with Cons.prems m have "matchLoop rename vsm videoFiles sps (acc, w1) = (res, w')" by simp
    from Cons.IH [OF this] True show ?thesis by simp
  next
    case False
    with one obtain r where r: "r1 = Some r" "SubtitlePath r = sp" "resultShape vsm videoFiles r" by blast
    with Cons.prems m have "matchLoop rename vsm videoFiles sps (acc @ [r], w1) = (res, w')" by simp
    from Cons.IH [OF this] obtain new where
      "res = (acc @ [r]) @ new" "map SubtitlePath new = filter (\<lambda>sp. \<not> skipped vsm videoFiles sp) sps"
      "\<forall>r\<in>set new. resultShape vsm videoFiles r" by blast
    with r False show ?thesis by (intro exI [of _ "r # new"]) simp
  qed
qed

lemma matchOne_dryRun: "dryRun vsm \<Longrightarrow> snd (matchOne rename vsm videoFiles sp w) = w"
  by (simp add: matchOne_unfold Let_def)

lemma matchLoop_dryRun: "dryRun vsm \<Longrightarrow> snd (matchLoop rename vsm videoFiles sps (acc, w)) = w"
proof (induction sps arbitrary: acc w)
  case Nil
  then show ?case by simp
next
  case (Cons sp sps)
  from matchOne_dryRun [OF Cons.prems, of rename videoFiles sp w]
  obtain r1 where "matchOne rename vsm videoFiles sp w = (r1, w)"
    by (cases "matchOne rename vsm videoFiles sp w") simp
  with Cons show ?case by (cases r1) simp_all
qed

lemma matchLoop_acc:
  "matchLoop rename vsm videoFiles sps (acc, w) =
     (acc @ fst (matchLoop rename vsm videoFiles sps ([], w)), snd (matchLoop rename vsm videoFiles sps ([], w)))"
proof (induction sps arbitrary: acc w)
  case Nil
  then show ?case by simp
next
  case (Cons sp sps)
  obtain r1 w1 where m: "matchOne rename vsm videoFiles sp w = (r1, w1)"
    by (cases "matchOne rename vsm videoFiles sp w")
  show ?case
  proof (cases r1)
    case None
    with m Cons.IH [of acc w1] Cons.IH [of "[]" w1] show ?thesis by simp
  next
    case (Some r)
    with m Cons.IH [of "acc @ [r]" w1] Cons.IH [of "[r]" w1] show ?thesis by simp
  qed
qed

lemma matchLoop_append:
  "matchLoop rename vsm videoFiles (xs @ ys) (acc, w) =
     matchLoop rename vsm videoFiles ys (matchLoop rename vsm videoFiles xs (acc, w))"
proof (induction xs arbitrary: acc w)
  case Nil
  then show ?case by simp
next
  case (Cons sp sps)
  then show ?case by (simp split: prod.splits option.splits)
qed

lemma Match_Inr:
  "Match rename vsm (Inr (videoFiles, subtitleFiles)) w =
     (Inr (fst (matchLoop rename vsm videoFiles subtitleFiles ([], w))),
      snd (matchLoop rename vsm videoFiles subtitleFiles ([], w)))"
  by (simp add: Match_def split: prod.splits)

lemma Match_results:
  assumes "Match rename vsm (Inr (videoFiles, subtitleFiles)) w = (Inr results, w')"
  shows "map SubtitlePath results = filter (\<lambda>sp. \<not> skipped vsm videoFiles sp) subtitleFiles"
    and "\<forall>r\<in>set results. resultShape vsm videoFiles r"
proof -
  from assms have "matchLoop rename vsm videoFiles subtitleFiles ([], w) = (results, w')"
    by (simp add: Match_Inr prod_eq_iff)
  from matchLoop_results [OF this]
  show "map SubtitlePath results = filter (\<lambda>sp. \<not> skipped vsm videoFiles sp) subtitleFiles"
    and "\<forall>r\<in>set results. resultShape vsm videoFiles r"
    by simp_all
qed

lemma Match_result_for:
  assumes "Match rename vsm (Inr (videoFiles, subtitleFiles)) w = (Inr results, w')"
    and "sp \<in> set subtitleFiles" and "\<not> skipped vsm videoFiles sp"
  shows "\<exists>r\<in>set results. SubtitlePath r = sp \<and> resultShape vsm videoFiles r"
proof -
  from assms(2,3) have "sp \<in> set (filter (\<lambda>sp. \<not> skipped vsm videoFiles sp) subtitleFiles)"
    by simp
  then have "sp \<in> set (map SubtitlePath results)"
    using Match_results(1) [OF assms(1)] by simp
  then obtain r where "r \<in> set results" "SubtitlePath r = sp" by auto
  with Match_results(2) [OF assms(1)] show ?thesis by blast
qed

lemma accepted_Finite:
  "similarityThreshold vsm = Finite t \<Longrightarrow>
   accepted vsm videoFiles sp \<longleftrightarrow> t \<le> snd (findBestMatch sp videoFiles)"
  by (simp add: accepted_def)

text \<open>
  C3. Let the threshold be the number \<open>t\<close> and let \<open>Match\<close> return \<open>results\<close>. A subtitle
  whose best score is exactly \<open>t\<close> is accepted: its new path is computed (it is never the
  empty string) and, unless the subtitle is skipped by the ignore-existing rule, a result
  with that new path is emitted. A subtitle whose best score is strictly below \<open>t\<close> has a
  result that carries the best score, an empty new path and \<open>Renamed = False\<close>; and every
  result whose score is below \<open>t\<close> is of that kind.
\<close>

theorem Match_threshold_inclusive:
  assumes "similarityThreshold vsm = Finite t"
    and "Match rename vsm (Inr (videoFiles, subtitleFiles)) w = (Inr results, w')"
  shows "(\<forall>sp\<in>set subtitleFiles. snd (findBestMatch sp videoFiles) = t \<longrightarrow>
            accepted vsm videoFiles sp \<and> newPathFor videoFiles sp \<noteq> []
            \<and> (\<not> skipped vsm videoFiles sp \<longrightarrow>
                 (\<exists>r\<in>set results. SubtitlePath r = sp \<and> Similarity r = t
                    \<and> NewSubtitlePath r = newPathFor videoFiles sp)))
       \<and> (\<forall>sp\<in>set subtitleFiles. snd (findBestMatch sp videoFiles) < t \<longrightarrow>
            (\<exists>r\<in>set results. SubtitlePath r = sp
               \<and> Similarity r = snd (findBestMatch sp videoFiles)
               \<and> NewSubtitlePath r = [] \<and> \<not> Renamed r))
       \<and> (\<forall>r\<in>set results. Similarity r < t \<longrightarrow>
            Similarity r = snd (findBestMatch (SubtitlePath r) videoFiles)
            \<and> NewSubtitlePath r = [] \<and> \<not> Renamed r \<and> Error r = None)"
proof (intro conjI ballI impI)
  fix sp assume sp: "sp \<in> set subtitleFiles" and eq: "snd (findBestMatch sp videoFiles) = t"
  from eq show acc: "accepted vsm videoFiles sp"
    by (simp add: accepted_Finite [OF assms(1)])
  show "newPathFor videoFiles sp \<noteq> []" by (rule newPathFor_nonempty)
  assume "\<not> skipped vsm videoFiles sp"
  from Match_result_for [OF assms(2) sp this] obtain r where
    r: "r \<in> set results" "SubtitlePath r = sp" "resultShape vsm videoFiles r" by blast
  with acc eq have "Similarity r = t \<and> NewSubtitlePath r = newPathFor videoFiles sp"
    by (simp add: resultShape_def)
  with r show "\<exists>r\<in>set results. SubtitlePath r = sp \<and> Similarity r = t
      \<and> NewSubtitlePath r = newPathFor videoFiles sp" by blast
next
  fix sp assume sp: "sp \<in> set subtitleFiles" and lt: "snd (findBestMatch sp videoFiles) < t"
  then have na: "\<not> accepted vsm videoFiles sp"
    by (simp add: accepted_Finite [OF assms(1)])
  then have "\<not> skipped vsm videoFiles sp" by (simp add: skipped_def)
  from Match_result_for [OF assms(2) sp this] obtain r where
    r: "r \<in> set results" "SubtitlePath r = sp" "resultShape vsm videoFiles r" by blast
  with na have "Similarity r = snd (findBestMatch sp videoFiles)
      \<and> NewSubtitlePath r = [] \<and> \<not> Renamed r"
    by (simp add: resultShape_def)
  with r show "\<exists>r\<in>set results. SubtitlePath r = sp
      \<and> Similarity r = snd (findBestMatch sp videoFiles)
      \<and> NewSubtitlePath r = [] \<and> \<not> Renamed r" by blast
next
  fix r assume r: "r \<in> set results" and lt: "Similarity r < t"
  from Match_results(2) [OF assms(2)] r have sh: "resultShape vsm videoFiles r" by blast
  then have sim: "Similarity r = snd (findBestMatch (SubtitlePath r) videoFiles)"
    by (simp add: resultShape_def)
  with lt have "\<not> accepted vsm videoFiles (SubtitlePath r)"
    by (simp add: accepted_Finite [OF assms(1)])
  with sh sim show "Similarity r = snd (findBestMatch (SubtitlePath r) videoFiles)"
    "NewSubtitlePath r = []" "\<not> Renamed r" "Error r = None"
    by (simp_all add: resultShape_def)
qed

theorem Match_threshold_inclusive_witness:
  "similarityThreshold (New ''d'' [SimilarityThreshold (Finite (2 / 3))]) = Finite (2 / 3)
   \<and> Match (\<lambda>fs a b. (None :: string option, fs))
        (New ''d'' [SimilarityThreshold (Finite (2 / 3))])
        (Inr ([''d/abc.mkv''], [''d/ab.srt'', ''d/xy.srt'']))
        \<lparr>files = (), renameCalls = []\<rparr>
      = (Inr [\<lparr>SubtitlePath = ''d/ab.srt'', VideoPath = ''d/abc.mkv'', NewSubtitlePath = ''d/abc.srt'',
               Similarity = 2 / 3, Renamed = False, Error = None\<rparr>,
              \<lparr>SubtitlePath = ''d/xy.srt'', VideoPath = [], NewSubtitlePath = [],
               Similarity = 0, Renamed = False, Error = None\<rparr>],
         \<lparr>files = (), renameCalls = []\<rparr>)
   \<and> snd (findBestMatch ''d/ab.srt'' [''d/abc.mkv'']) = 2 / 3
   \<and> accepted (New ''d'' [SimilarityThreshold (Finite (2 / 3))]) [''d/abc.mkv''] ''d/ab.srt''
   \<and> newPathFor [''d/abc.mkv''] ''d/ab.srt'' = ''d/abc.srt''
   \<and> snd (findBestMatch ''d/xy.srt'' [''d/abc.mkv'']) < 2 / 3"
proof -
  let ?vsm = "New ''d'' [SimilarityThreshold (Finite (2 / 3))]"
  have t: "similarityThreshold ?vsm = Finite (2 / 3)"
    by (simp add: New_def defaults_def)
  have m: "Match (\<lambda>fs a b. (None :: string option, fs)) ?vsm
        (Inr ([''d/abc.mkv''], [''d/ab.srt'', ''d/xy.srt'']))
        \<lparr>files = (), renameCalls = []\<rparr>
      = (Inr [\<lparr>SubtitlePath = ''d/ab.srt'', VideoPath = ''d/abc.mkv'', NewSubtitlePath = ''d/abc.srt'',
               Similarity = 2 / 3, Renamed = False, Error = None\<rparr>,
              \<lparr>SubtitlePath = ''d/xy.srt'', VideoPath = [], NewSubtitlePath = [],
               Similarity = 0, Renamed = False, Error = None\<rparr>],
         \<lparr>files = (), renameCalls = []\<rparr>)"
    by code_simp
  have s1: "snd (findBestMatch ''d/ab.srt'' [''d/abc.mkv'']) = 2 / 3"
    by code_simp
  have s2: "snd (findBestMatch ''d/xy.srt'' [''d/abc.mkv'']) = 0"
    by code_simp
  have np: "newPathFor [''d/abc.mkv''] ''d/ab.srt'' = ''d/abc.srt''"
    by code_simp
  from Match_threshold_inclusive [OF t m] s1
  have "accepted ?vsm [''d/abc.mkv''] ''d/ab.srt''"
    by simp
  with t m s1 s2 np show ?thesis by simp
qed

text \<open>
  C6. The results of \<open>Match\<close>, in order, belong to exactly the subtitles that are not
  skipped, where a subtitle is skipped when \<open>ignoreExisting\<close> is set, its best score
  passes the threshold and the computed new path equals its own path. The loop body gives
  no result in that case and in no other, whatever the state of the file system.
\<close>

theorem Match_ignoreExisting_omits:
  assumes "Match rename vsm (Inr (videoFiles, subtitleFiles)) w = (Inr results, w')"
  shows "map SubtitlePath results = filter (\<lambda>sp. \<not> skipped vsm videoFiles sp) subtitleFiles
       \<and> (\<forall>sp. skipped vsm videoFiles sp \<longleftrightarrow>
             ignoreExisting vsm \<and> accepted vsm videoFiles sp \<and> sp = newPathFor videoFiles sp)
       \<and> (\<forall>sp w0. fst (matchOne rename vsm videoFiles sp w0) = None \<longleftrightarrow> skipped vsm videoFiles sp)"
proof (intro conjI allI)
  show "map SubtitlePath results = filter (\<lambda>sp. \<not> skipped vsm videoFiles sp) subtitleFiles"
    by (rule Match_results(1) [OF assms])
  show "skipped vsm videoFiles sp \<longleftrightarrow>
      ignoreExisting vsm \<and> accepted vsm videoFiles sp \<and> sp = newPathFor videoFiles sp" for sp
    by (simp add: skipped_def)
  show "fst (matchOne rename vsm videoFiles sp w0) = None \<longleftrightarrow> skipped vsm videoFiles sp" for sp w0
    using matchOne_result [of rename vsm videoFiles sp w0
        "fst (matchOne rename vsm videoFiles sp w0)" "snd (matchOne rename vsm videoFiles sp w0)"]
    by auto
qed

theorem Match_ignoreExisting_omits_witness:
  "Match (\<lambda>fs a b. (None :: string option, fs)) (New ''d'' [IgnoreExisting True])
        (Inr ([''d/a.mkv''], [''d/a.srt'', ''d/b_x.srt'']))
        \<lparr>files = (), renameCalls = []\<rparr>
      = (Inr [\<lparr>SubtitlePath = ''d/b_x.srt'', VideoPath = [], NewSubtitlePath = [],
               Similarity = 0, Renamed = False, Error = None\<rparr>],
         \<lparr>files = (), renameCalls = []\<rparr>)
   \<and> skipped (New ''d'' [IgnoreExisting True]) [''d/a.mkv''] ''d/a.srt''
   \<and> newPathFor [''d/a.mkv''] ''d/a.srt'' = ''d/a.srt''
   \<and> fst (matchOne (\<lambda>fs a b. (None :: string option, fs)) (New ''d'' [IgnoreExisting True])
            [''d/a.mkv''] ''d/a.srt'' \<lparr>files = (), renameCalls = []\<rparr>) = None"
proof -
  let ?vsm = "New ''d'' [IgnoreExisting True]"
  have m: "Match (\<lambda>fs a b. (None :: string option, fs)) ?vsm
        (Inr ([''d/a.mkv''], [''d/a.srt'', ''d/b_x.srt'']))
        \<lparr>files = (), renameCalls = []\<rparr>
      = (Inr [\<lparr>SubtitlePath = ''d/b_x.srt'', VideoPath = [], NewSubtitlePath = [],
               Similarity = 0, Renamed = False, Error = None\<rparr>],
         \<lparr>files = (), renameCalls = []\<rparr>)"
    by code_simp
  have sk: "skipped ?vsm [''d/a.mkv''] ''d/a.srt''"
    by code_simp
  have np: "newPathFor [''d/a.mkv''] ''d/a.srt'' = ''d/a.srt''"
    by code_simp
  from Match_ignoreExisting_omits [OF m] sk
  have "fst (matchOne (\<lambda>fs a b. (None :: string option, fs)) ?vsm
            [''d/a.mkv''] ''d/a.srt'' \<lparr>files = (), renameCalls = []\<rparr>) = None"
    by blast
  with m sk np show ?thesis by simp
qed

text \<open>
  C7. In a dry run \<open>Match\<close> calls \<^verbatim>\<open>os.Rename\<close> not once and leaves the file system as it
  was, whatever the scan returned, the scores, the threshold and the paths; every result
  has \<open>Renamed = False\<close> and no error.
\<close>

theorem Match_dryRun_no_rename:
  assumes "dryRun vsm" and "Match rename vsm scanFiles w = (out, w')"
  shows "files w' = files w \<and> renameCalls w' = renameCalls w
       \<and> (\<forall>results. out = Inr results \<longrightarrow> (\<forall>r\<in>set results. \<not> Renamed r \<and> Error r = None))"
proof (cases scanFiles)
  case (Inl err)
  with assms(2) show ?thesis by (auto simp: Match_def)
next
  case (Inr lists)
  obtain videoFiles subtitleFiles where l: "lists = (videoFiles, subtitleFiles)" by (cases lists)
  from assms(2) Inr l have m: "Match rename vsm (Inr (videoFiles, subtitleFiles)) w = (out, w')"
    by simp
  then have "w' = snd (matchLoop rename vsm videoFiles subtitleFiles ([], w))"
    by (simp add: Match_Inr prod_eq_iff)
  then have w: "w' = w" by (simp add: matchLoop_dryRun [OF assms(1)])
  have "\<not> Renamed r \<and> Error r = None" if "out = Inr results" "r \<in> set results" for results r
  proof -
    from m that(1) have "Match rename vsm (Inr (videoFiles, subtitleFiles)) w = (Inr results, w')"
      by simp
    from Match_results(2) [OF this] that(2) have "resultShape vsm videoFiles r" by blast
    with assms(1) show ?thesis by (simp add: resultShape_def)
  qed
  with w show ?thesis by blast
qed

theorem Match_dryRun_no_rename_witness:
  "dryRun (New ''d'' [])
   \<and> fst (Match (\<lambda>fs a b. (Some ''denied'', fs)) (New ''d'' [])
        (Inr ([''d/abc.mkv''], [''d/abc_1.srt'', ''d/abc.srt'']))
        \<lparr>files = (), renameCalls = []\<rparr>)
      = Inr [\<lparr>SubtitlePath = ''d/abc_1.srt'', VideoPath = ''d/abc.mkv'', NewSubtitlePath = ''d/abc.srt'',
               Similarity = 3 / 5, Renamed = False, Error = None\<rparr>,
              \<lparr>SubtitlePath = ''d/abc.srt'', VideoPath = ''d/abc.mkv'', NewSubtitlePath = ''d/abc.srt'',
               Similarity = 1, Renamed = False, Error = None\<rparr>]
   \<and> renameCalls (snd (Match (\<lambda>fs a b. (Some ''denied'', fs)) (New ''d'' [])
        (Inr ([''d/abc.mkv''], [''d/abc_1.srt'', ''d/abc.srt'']))
        \<lparr>files = (), renameCalls = []\<rparr>)) = []"
proof -
  let ?m = "Match (\<lambda>fs a b. (Some ''denied'', fs)) (New ''d'' [])
        (Inr ([''d/abc.mkv''], [''d/abc_1.srt'', ''d/abc.srt'']))
        \<lparr>files = (), renameCalls = []\<rparr>"
  have d: "dryRun (New ''d'' [])"
    by (simp add: New_def defaults_def)
  have f: "fst ?m
      = Inr [\<lparr>SubtitlePath = ''d/abc_1.srt'', VideoPath = ''d/abc.mkv'', NewSubtitlePath = ''d/abc.srt'',
               Similarity = 3 / 5, Renamed = False, Error = None\<rparr>,
              \<lparr>SubtitlePath = ''d/abc.srt'', VideoPath = ''d/abc.mkv'', NewSubtitlePath = ''d/abc.srt'',
               Similarity = 1, Renamed = False, Error = None\<rparr>]"
    by code_simp
  have "?m = (fst ?m, snd ?m)" by simp
  from Match_dryRun_no_rename [OF d this]
  have "renameCalls (snd ?m) = []" by simp
  with d f show ?thesis by simp
qed

text \<open>
  C9. Outside a dry run, let the subtitles \<open>before\<close> have been processed, giving
  \<open>results1\<close>, and let the rename of the accepted subtitle \<open>sp\<close> fail with \<open>err\<close>. Then the
  result of \<open>sp\<close> holds \<open>err\<close> with \<open>Renamed = False\<close> and is appended; the subtitles
  \<open>after\<close> are processed as usual from the state the failed call left (each of them that is
  not skipped has its result); and \<open>Match\<close> returns all the results with no error of its
  own.
\<close>

theorem Match_rename_failure_isolated:
  fixes rename :: "'w \<Rightarrow> string \<Rightarrow> string \<Rightarrow> 'e option \<times> 'w"
  assumes "\<not> dryRun vsm"
    and "accepted vsm videoFiles sp"
    and "newPathFor videoFiles sp \<noteq> sp"
    and "matchLoop rename vsm videoFiles before ([], w) = (results1, w1)"
    and "rename (files w1) sp (newPathFor videoFiles sp) = (Some err, fs2)"
    and "matchLoop rename vsm videoFiles after
           ([], \<lparr>files = fs2, renameCalls = renameCalls w1 @ [(sp, newPathFor videoFiles sp)]\<rparr>)
         = (results2, w2)"
  shows "Match rename vsm (Inr (videoFiles, before @ sp # after)) w =
           (Inr (results1 @
                 [\<lparr>SubtitlePath = sp, VideoPath = fst (findBestMatch sp videoFiles),
                   NewSubtitlePath = newPathFor videoFiles sp,
                   Similarity = snd (findBestMatch sp videoFiles),
                   Renamed = False, Error = Some err\<rparr>] @ results2), w2)
       \<and> map SubtitlePath results2 = filter (\<lambda>s. \<not> skipped vsm videoFiles s) after"
proof -
  define np where "np = newPathFor videoFiles sp"
  define w1' :: "'w World" where "w1' = \<lparr>files = fs2, renameCalls = renameCalls w1 @ [(sp, np)]\<rparr>"
  define r :: "'e MatchResult" where "r =
     \<lparr>SubtitlePath = sp, VideoPath = fst (findBestMatch sp videoFiles), NewSubtitlePath = np,
      Similarity = snd (findBestMatch sp videoFiles), Renamed = False, Error = Some err\<rparr>"
  have ns: "\<not> skipped vsm videoFiles sp"
    using assms(3) by (auto simp: skipped_def)
  have ren: "os_Rename rename w1 sp np = (Some err, w1')"
    using assms(5) by (simp add: os_Rename_def np_def w1'_def)
  have one: "matchOne rename vsm videoFiles sp w1 = (Some r, w1')"
    using assms(1,2,3) ns ren
    by (simp add: matchOne_unfold Let_def np_def [symmetric] r_def)
  have "matchLoop rename vsm videoFiles (before @ sp # after) ([], w)
          = matchLoop rename vsm videoFiles after (results1 @ [r], w1')"
    using assms(4) one by (simp add: matchLoop_append)
  also have "\<dots> = (results1 @ [r] @ results2, w2)"
    using assms(6) matchLoop_acc [of rename vsm videoFiles after "results1 @ [r]" w1']
    by (simp add: w1'_def np_def)
  finally have "Match rename vsm (Inr (videoFiles, before @ sp # after)) w
      = (Inr (results1 @ [r] @ results2), w2)"
    by (simp add: Match_Inr)
  moreover have "map SubtitlePath results2 = filter (\<lambda>s. \<not> skipped vsm videoFiles s) after"
    using matchLoop_results [OF assms(6)] by simp
  ultimately show ?thesis by (simp add: r_def np_def)
qed

theorem Match_rename_failure_isolated_witness:
  "\<not> dryRun (New ''d'' [DryRun False])
   \<and> accepted (New ''d'' [DryRun False]) [''d/abc.mkv'', ''d/xyz.mkv''] ''d/abc_1.srt''
   \<and> newPathFor [''d/abc.mkv'', ''d/xyz.mkv''] ''d/abc_1.srt'' = ''d/abc.srt''
   \<and> Match (\<lambda>n a b. if a = ''d/abc_1.srt'' then (Some ''denied'', n) else (None, Suc n))
        (New ''d'' [DryRun False])
        (Inr ([''d/abc.mkv'', ''d/xyz.mkv''], [''d/q.srt''] @ ''d/abc_1.srt'' # [''d/xyz_.srt'']))
        \<lparr>files = 0, renameCalls = []\<rparr>
      = (Inr ([\<lparr>SubtitlePath = ''d/q.srt'', VideoPath = [], NewSubtitlePath = [],
                Similarity = 0, Renamed = False, Error = None\<rparr>] @
              [\<lparr>SubtitlePath = ''d/abc_1.srt'', VideoPath = ''d/abc.mkv'', NewSubtitlePath = ''d/abc.srt'',
                Similarity = 3 / 5, Renamed = False, Error = Some ''denied''\<rparr>] @
              [\<lparr>SubtitlePath = ''d/xyz_.srt'', VideoPath = ''d/xyz.mkv'', NewSubtitlePath = ''d/xyz.srt'',
                Similarity = 1, Renamed = True, Error = None\<rparr>]),
         \<lparr>files = 1, renameCalls = [(''d/abc_1.srt'', ''d/abc.srt''), (''d/xyz_.srt'', ''d/xyz.srt'')]\<rparr>)"
proof -
  let ?vsm = "New ''d'' [DryRun False]"
  let ?vf = "[''d/abc.mkv'', ''d/xyz.mkv'']"
  let ?rn = "\<lambda>(n::nat) (a::string) (b::string). if a = ''d/abc_1.srt'' then (Some ''denied'', n) else (None, Suc n)"
  have d: "\<not> dryRun ?vsm"
    by (simp add: New_def defaults_def)
  have acc: "accepted ?vsm ?vf ''d/abc_1.srt''"
    by code_simp
  have np: "newPathFor ?vf ''d/abc_1.srt'' = ''d/abc.srt''"
    by code_simp
  have ne: "newPathFor ?vf ''d/abc_1.srt'' \<noteq> ''d/abc_1.srt''"
    unfolding np by simp
  have fb: "findBestMatch ''d/abc_1.srt'' ?vf = (''d/abc.mkv'', 3 / 5)"
    by code_simp
  have before: "matchLoop ?rn ?vsm ?vf [''d/q.srt''] ([], \<lparr>files = 0, renameCalls = []\<rparr>)
      = ([\<lparr>SubtitlePath = ''d/q.srt'', VideoPath = [], NewSubtitlePath = [],
                Similarity = 0, Renamed = False, Error = None\<rparr>], \<lparr>files = 0, renameCalls = []\<rparr>)"
    by code_simp
  have ren: "?rn (files \<lparr>files = 0 :: nat, renameCalls = []\<rparr>) ''d/abc_1.srt'' (newPathFor ?vf ''d/abc_1.srt'')
      = (Some ''denied'', 0)"
    by simp
  have after: "matchLoop ?rn ?vsm ?vf [''d/xyz_.srt'']
        ([], \<lparr>files = 0, renameCalls = renameCalls \<lparr>files = 0 :: nat, renameCalls = []\<rparr>
                 @ [(''d/abc_1.srt'', newPathFor ?vf ''d/abc_1.srt'')]\<rparr>)
      = ([\<lparr>SubtitlePath = ''d/xyz_.srt'', VideoPath = ''d/xyz.mkv'', NewSubtitlePath = ''d/xyz.srt'',
                Similarity = 1, Renamed = True, Error = None\<rparr>],
         \<lparr>files = 1, renameCalls = [(''d/abc_1.srt'', ''d/abc.srt''), (''d/xyz_.srt'', ''d/xyz.srt'')]\<rparr>)"
    by code_simp
  from Match_rename_failure_isolated [OF d acc ne before ren after]
  have "Match ?rn ?vsm (Inr (?vf, [''d/q.srt''] @ ''d/abc_1.srt'' # [''d/xyz_.srt'']))
        \<lparr>files = 0, renameCalls = []\<rparr>
      = (Inr ([\<lparr>SubtitlePath = ''d/q.srt'', VideoPath = [], NewSubtitlePath = [],
                Similarity = 0, Renamed = False, Error = None\<rparr>] @
              [\<lparr>SubtitlePath = ''d/abc_1.srt'', VideoPath = ''d/abc.mkv'', NewSubtitlePath = ''d/abc.srt'',
                Similarity = 3 / 5, Renamed = False, Error = Some ''denied''\<rparr>] @
              [\<lparr>SubtitlePath = ''d/xyz_.srt'', VideoPath = ''d/xyz.mkv'', NewSubtitlePath = ''d/xyz.srt'',
                Similarity = 1, Renamed = True, Error = None\<rparr>]),
         \<lparr>files = 1, renameCalls = [(''d/abc_1.srt'', ''d/abc.srt''), (''d/xyz_.srt'', ''d/xyz.srt'')]\<rparr>)"
    by (simp only: np fb fst_conv snd_conv)
  with d acc np show ?thesis by (simp only: simp_thms)
qed

lemma findBestLoop_keep:
  "\<forall>v\<in>set vs. calculateSimilarity ns (normalizeTitle (stem v)) \<le> bs \<Longrightarrow>
   findBestLoop ns vs (bm, bs) = (bm, bs)"
  by (induction vs) (simp_all add: stem_def Let_def not_less [symmetric])

lemma findBestLoop_first:
  assumes "i < length vs"
    and "bs < calculateSimilarity ns (normalizeTitle (stem (vs ! i)))"
    and "\<forall>k<i. calculateSimilarity ns (normalizeTitle (stem (vs ! k)))
              < calculateSimilarity ns (normalizeTitle (stem (vs ! i)))"
    and "\<forall>k<length vs. calculateSimilarity ns (normalizeTitle (stem (vs ! k)))
              \<le> calculateSimilarity ns (normalizeTitle (stem (vs ! i)))"
  shows "findBestLoop ns vs (bm, bs) = (vs ! i, calculateSimilarity ns (normalizeTitle (stem (vs ! i))))"
  using assms
proof (induction vs arbitrary: i bm bs)
  case Nil
  then show ?case by simp
next
  case (Cons v vs)
  let ?sc = "\<lambda>x. calculateSimilarity ns (normalizeTitle (stem x))"
  show ?case
  proof (cases i)
    case 0
    from Cons.prems(4) have "\<forall>x\<in>set vs. ?sc x \<le> ?sc v"
      unfolding 0 by (metis in_set_conv_nth length_Cons not_less_eq nth_Cons_0 nth_Cons_Suc)
    from findBestLoop_keep [OF this, of v] Cons.prems(2)
    show ?thesis unfolding 0 by (simp add: stem_def Let_def)
  next
    case (Suc j)
    have j: "j < length vs" using Cons.prems(1) Suc by simp
    have before: "\<forall>k<j. ?sc (vs ! k) < ?sc (vs ! j)"
      using Cons.prems(3) Suc by (metis Suc_less_eq nth_Cons_Suc)
    have all: "\<forall>k<length vs. ?sc (vs ! k) \<le> ?sc (vs ! j)"
      using Cons.prems(4) Suc by (metis Suc_less_eq length_Cons nth_Cons_Suc)
    have v: "?sc v < ?sc (vs ! j)"
      using Cons.prems(3) Suc by (metis nth_Cons_0 nth_Cons_Suc zero_less_Suc)
    have bs: "bs < ?sc (vs ! j)" using Cons.prems(2) Suc by simp
    show ?thesis
    proof (cases "bs < ?sc v")
      case True
      with Cons.IH [OF j v before all, of v] Suc show ?thesis
        by (simp add: stem_def Let_def)
    next
      case False
      with Cons.IH [OF j bs before all, of bm] Suc show ?thesis
        by (simp add: stem_def Let_def)
    qed
  qed
qed

lemma findBestMatch_loop:
  "findBestMatch sp vs = findBestLoop (normalizeTitle (stem sp)) vs ([], 0)"
  by (simp add: findBestMatch_def stem_def Let_def)

text \<open>
  C4, as amended. If the candidate at index \<open>i\<close> has the maximal score, no candidate before
  it has that score, and the score is greater than 0, then \<open>findBestMatch\<close> returns that
  candidate and its score, whether or not later candidates attain the same score. As
  stated, without the condition on the score, the claim fails: when the maximal score is 0
  the empty path is returned instead of the first candidate.
\<close>

theorem findBestMatch_first_maximal:
  assumes "i < length videoFiles"
    and "\<forall>k<length videoFiles. candidateScore sp (videoFiles ! k) \<le> candidateScore sp (videoFiles ! i)"
    and "\<forall>k<i. candidateScore sp (videoFiles ! k) \<noteq> candidateScore sp (videoFiles ! i)"
    and "0 < candidateScore sp (videoFiles ! i)"
  shows "findBestMatch sp videoFiles = (videoFiles ! i, candidateScore sp (videoFiles ! i))"
proof -
  have "\<forall>k<i. candidateScore sp (videoFiles ! k) < candidateScore sp (videoFiles ! i)"
    using assms(1,2,3) by (metis less_le less_trans)
  with assms show ?thesis
    unfolding findBestMatch_loop candidateScore_def
    by (intro findBestLoop_first) simp_all
qed

theorem findBestMatch_first_maximal_witness:
  "candidateScore ''ab.srt'' ''zz.mkv'' = 0
   \<and> candidateScore ''ab.srt'' ''abc.mkv'' = 2 / 3
   \<and> candidateScore ''ab.srt'' ''abd.mkv'' = 2 / 3
   \<and> findBestMatch ''ab.srt'' [''zz.mkv'', ''abc.mkv'', ''abd.mkv''] = (''abc.mkv'', 2 / 3)"
proof -
  let ?vf = "[''zz.mkv'', ''abc.mkv'', ''abd.mkv'']"
  have a: "candidateScore ''ab.srt'' ''zz.mkv'' = 0" by code_simp
  have b: "candidateScore ''ab.srt'' ''abc.mkv'' = 2 / 3" by code_simp
  have c: "candidateScore ''ab.srt'' ''abd.mkv'' = 2 / 3" by code_simp
  have i: "(1::nat) < length ?vf" by simp
  have mx: "\<forall>k<length ?vf. candidateScore ''ab.srt'' (?vf ! k) \<le> candidateScore ''ab.srt'' (?vf ! 1)"
    using a b c by (simp add: less_Suc_eq numeral_3_eq_3 all_conj_distrib)
  have fi: "\<forall>k<1. candidateScore ''ab.srt'' (?vf ! k) \<noteq> candidateScore ''ab.srt'' (?vf ! 1)"
    using a b by simp
  have ps: "0 < candidateScore ''ab.srt'' (?vf ! 1)"
    using b by simp
  from findBestMatch_first_maximal [OF i mx fi ps] a b c show ?thesis by simp
qed

theorem findBestMatch_tie_zero_counterexample:
  "candidateScore ''abc.srt'' ''xyz.mkv'' = 0
   \<and> candidateScore ''abc.srt'' ''uvw.mkv'' = 0
   \<and> fst (findBestMatch ''abc.srt'' [''xyz.mkv'', ''uvw.mkv'']) \<noteq> ''xyz.mkv''
   \<and> findBestMatch ''abc.srt'' [''xyz.mkv'', ''uvw.mkv''] = ([], 0)"
proof -
  have a: "candidateScore ''abc.srt'' ''xyz.mkv'' = 0" by code_simp
  have b: "candidateScore ''abc.srt'' ''uvw.mkv'' = 0" by code_simp
  have c: "findBestMatch ''abc.srt'' [''xyz.mkv'', ''uvw.mkv''] = ([], 0)" by code_simp
  from a b c show ?thesis by simp
qed

text \<open>
  C10. If every candidate scores 0 then \<open>findBestMatch\<close> returns the empty path and the
  score 0, as it does for no candidates at all; so the result that the loop body of
  \<open>Match\<close> builds for such a subtitle has an empty \<open>VideoPath\<close> although candidates existed.
\<close>

theorem findBestMatch_all_zero:
  fixes rename :: "'w \<Rightarrow> string \<Rightarrow> string \<Rightarrow> 'e option \<times> 'w"
  assumes "\<forall>v\<in>set videoFiles. candidateScore sp v = 0"
  shows "findBestMatch sp videoFiles = ([], 0)
       \<and> findBestMatch sp videoFiles = findBestMatch sp []
       \<and> (\<forall>r. fst (matchOne rename vsm videoFiles sp w) = Some r \<longrightarrow>
             VideoPath r = [] \<and> Similarity r = 0)"
proof -
  have a: "findBestMatch sp videoFiles = ([], 0)"
    unfolding findBestMatch_loop using assms
    by (intro findBestLoop_keep) (simp add: candidateScore_def)
  have b: "findBestMatch sp [] = ([], 0)"
    by (simp add: findBestMatch_loop)
  have c: "VideoPath r = [] \<and> Similarity r = 0"
    if "fst (matchOne rename vsm videoFiles sp w) = Some r" for r
  proof -
    from matchOne_result [of rename vsm videoFiles sp w "Some r" "snd (matchOne rename vsm videoFiles sp w)"] that
    have "SubtitlePath r = sp \<and> resultShape vsm videoFiles r"
      by (cases "skipped vsm videoFiles sp") (auto simp: prod_eq_iff)
    with a show ?thesis by (simp add: resultShape_def)
  qed
  from a b c show ?thesis by simp
qed

theorem findBestMatch_all_zero_witness:
  "candidateScore ''abc.srt'' ''xyz.mkv'' = 0
   \<and> findBestMatch ''abc.srt'' [''xyz.mkv''] = ([], 0)
   \<and> fst (matchOne (\<lambda>fs a b. (None :: string option, fs)) (New ''d'' []) [''xyz.mkv''] ''abc.srt''
            \<lparr>files = (), renameCalls = []\<rparr>)
      = Some \<lparr>SubtitlePath = ''abc.srt'', VideoPath = [], NewSubtitlePath = [],
               Similarity = 0, Renamed = False, Error = None\<rparr>"
proof -
  have a: "candidateScore ''abc.srt'' ''xyz.mkv'' = 0" by code_simp
  then have h: "\<forall>v\<in>set [''xyz.mkv'']. candidateScore ''abc.srt'' v = 0" by simp
  have m: "fst (matchOne (\<lambda>fs a b. (None :: string option, fs)) (New ''d'' []) [''xyz.mkv''] ''abc.srt''
            \<lparr>files = (), renameCalls = []\<rparr>)
      = Some \<lparr>SubtitlePath = ''abc.srt'', VideoPath = [], NewSubtitlePath = [],
               Similarity = 0, Renamed = False, Error = None\<rparr>"
    by code_simp
  from findBestMatch_all_zero [OF h, of "\<lambda>fs a b. (None :: string option, fs)" "New ''d'' []" "\<lparr>files = (), renameCalls = []\<rparr>"]
  have "findBestMatch ''abc.srt'' [''xyz.mkv''] = ([], 0)" by blast
  with a m show ?thesis by simp
qed

section \<open>The example of the documentation\<close>

lemma calculateSimilarity_same: "calculateSimilarity s s = 1"
  by (simp add: calculateSimilarity_def)

text \<open>
  C5. \<open>normalizeTitle\<close> maps the subtitle stem and the video stem of the example to the same
  title, so their similarity is 1. For a subtitle path and a video path with these stems, in
  any directories, \<open>findBestMatch\<close> picks the video with score 1 and, under a threshold in
  [0,1], the new path of the result is the directory of the subtitle joined with the video
  stem and the extension of the subtitle.
\<close>

theorem how_to_code_example:
  fixes rename :: "'w \<Rightarrow> string \<Rightarrow> string \<Rightarrow> 'e option \<times> 'w"
  assumes "stem subtitlePath = ''How_to_code_-_YouTube-zh-CN-dual-double''"
    and "filepath_Ext subtitlePath = ''.srt''"
    and "stem videoPath = ''How_to_code_[ABC123]''"
    and "validThreshold (similarityThreshold vsm)"
  shows "normalizeTitle ''How_to_code_-_YouTube-zh-CN-dual-double'' = ''how to code''
       \<and> normalizeTitle ''How_to_code_[ABC123]'' = ''how to code''
       \<and> calculateSimilarity (normalizeTitle ''How_to_code_-_YouTube-zh-CN-dual-double'')
            (normalizeTitle ''How_to_code_[ABC123]'') = 1
       \<and> findBestMatch subtitlePath [videoPath] = (videoPath, 1)
       \<and> (\<forall>r. fst (matchOne rename vsm [videoPath] subtitlePath w) = Some r \<longrightarrow>
             NewSubtitlePath r = filepath_Join [filepath_Dir subtitlePath, ''How_to_code_[ABC123].srt''])"
proof -
  have n1: "normalizeTitle ''How_to_code_-_YouTube-zh-CN-dual-double'' = ''how to code''"
    by code_simp
  have n2: "normalizeTitle ''How_to_code_[ABC123]'' = ''how to code''"
    by code_simp
  have sim: "calculateSimilarity (normalizeTitle ''How_to_code_-_YouTube-zh-CN-dual-double'')
      (normalizeTitle ''How_to_code_[ABC123]'') = 1"
    unfolding n1 n2 by (rule calculateSimilarity_same)
  have "candidateScore subtitlePath videoPath = 1"
    unfolding candidateScore_def assms(1,3) by (rule sim)
  then have best: "findBestMatch subtitlePath [videoPath] = (videoPath, 1)"
    unfolding findBestMatch_loop candidateScore_def
    using findBestLoop_first [of 0 "[videoPath]" 0 "normalizeTitle (stem subtitlePath)" "[]"]
    by simp
  have np: "newPathFor [videoPath] subtitlePath
      = filepath_Join [filepath_Dir subtitlePath, ''How_to_code_[ABC123].srt'']"
    by (simp add: newPathFor_def best assms(2,3))
  from assms(4) obtain t where t: "similarityThreshold vsm = Finite t" "t \<le> 1"
    by (auto simp: validThreshold_Finite)
  then have acc: "accepted vsm [videoPath] subtitlePath"
    by (simp add: accepted_def best)
  have "NewSubtitlePath r = filepath_Join [filepath_Dir subtitlePath, ''How_to_code_[ABC123].srt'']"
    if "fst (matchOne rename vsm [videoPath] subtitlePath w) = Some r" for r
  proof -
    from matchOne_result [of rename vsm "[videoPath]" subtitlePath w "Some r"
        "snd (matchOne rename vsm [videoPath] subtitlePath w)"] that
    have "SubtitlePath r = subtitlePath \<and> resultShape vsm [videoPath] r"
      by (cases "skipped vsm [videoPath] subtitlePath") (auto simp: prod_eq_iff)
    with acc np show ?thesis by (simp add: resultShape_def)
  qed
  with n1 n2 sim best show ?thesis by blast
qed

theorem how_to_code_example_witness:
  "stem ''videos/How_to_code_-_YouTube-zh-CN-dual-double.srt'' = ''How_to_code_-_YouTube-zh-CN-dual-double''
   \<and> filepath_Ext ''videos/How_to_code_-_YouTube-zh-CN-dual-double.srt'' = ''.srt''
   \<and> stem ''videos/How_to_code_[ABC123].mkv'' = ''How_to_code_[ABC123]''
   \<and> validThreshold (similarityThreshold (New ''videos'' []))
   \<and> findBestMatch ''videos/How_to_code_-_YouTube-zh-CN-dual-double.srt''
        [''videos/How_to_code_[ABC123].mkv''] = (''videos/How_to_code_[ABC123].mkv'', 1)
   \<and> filepath_Join [filepath_Dir ''videos/How_to_code_-_YouTube-zh-CN-dual-double.srt'',
                     ''How_to_code_[ABC123].srt''] = ''videos/How_to_code_[ABC123].srt''
   \<and> Match (\<lambda>fs a b. (None :: string option, fs)) (New ''videos'' [])
        (Inr ([''videos/How_to_code_[ABC123].mkv''],
              [''videos/How_to_code_-_YouTube-zh-CN-dual-double.srt'']))
        \<lparr>files = (), renameCalls = []\<rparr>
      = (Inr [\<lparr>SubtitlePath = ''videos/How_to_code_-_YouTube-zh-CN-dual-double.srt'',
               VideoPath = ''videos/How_to_code_[ABC123].mkv'',
               NewSubtitlePath = ''videos/How_to_code_[ABC123].srt'',
               Similarity = 1, Renamed = False, Error = None\<rparr>],
         \<lparr>files = (), renameCalls = []\<rparr>)"
proof -
  let ?sp = "''videos/How_to_code_-_YouTube-zh-CN-dual-double.srt''"
  let ?vp = "''videos/How_to_code_[ABC123].mkv''"
  have a: "stem ?sp = ''How_to_code_-_YouTube-zh-CN-dual-double''" by code_simp
  have b: "filepath_Ext ?sp = ''.srt''" by code_simp
  have c: "stem ?vp = ''How_to_code_[ABC123]''" by code_simp
  have d: "validThreshold (similarityThreshold (New ''videos'' []))"
    by (simp add: New_def defaults_def validThreshold_def)
  have j: "filepath_Join [filepath_Dir ?sp, ''How_to_code_[ABC123].srt'']
      = ''videos/How_to_code_[ABC123].srt''"
    by code_simp
  have m: "Match (\<lambda>fs a b. (None :: string option, fs)) (New ''videos'' []) (Inr ([?vp], [?sp]))
        \<lparr>files = (), renameCalls = []\<rparr>
      = (Inr [\<lparr>SubtitlePath = ?sp, VideoPath = ?vp,
               NewSubtitlePath = ''videos/How_to_code_[ABC123].srt'',
               Similarity = 1, Renamed = False, Error = None\<rparr>],
         \<lparr>files = (), renameCalls = []\<rparr>)"
    by code_simp
  from how_to_code_example [OF a b c d, of "\<lambda>fs a b. (None :: string option, fs)" "\<lparr>files = (), renameCalls = []\<rparr>"]
  have "findBestMatch ?sp [?vp] = (?vp, 1)" by blast
  with a b c d j m show ?thesis by (simp only: simp_thms)
qed

end
